theory Spec2Isabelle
  imports Main "HOL-Library.List_Lexorder" "HOL-Library.Multiset"
begin

section \<open>Conventions\<close>

text \<open>
  The program is a Go package that finds font files, loads them through the canvas
  and font libraries and draws a preview.  What is modelled here is the code of the
  package itself: the name normalizer \<^verbatim>\<open>titleCase\<close>, the line breaker
  \<^verbatim>\<open>breakLines\<close>, the constructors of \<^verbatim>\<open>Font\<close>, \<^verbatim>\<open>Font.Load\<close> and \<^verbatim>\<open>Open\<close>.
  \<^item> Functions of the Go standard library whose behaviour is fixed by their
    documentation (\<^verbatim>\<open>bytes.Split\<close>, \<^verbatim>\<open>strconv.Atoi\<close>, \<^verbatim>\<open>strings.TrimSpace\<close>,
    \<^verbatim>\<open>filepath.Base\<close>, the three regular expressions, ...) are written out as
    functions; file paths are those of a system whose separator is the slash.
  \<^item> Data of the standard library (the Unicode tables above Latin-1), the
    operating system (\<^verbatim>\<open>os.Stat\<close>, \<^verbatim>\<open>os.ReadDir\<close>) and the canvas and font libraries
    are parameters, gathered in records.  A call of a library is taken to return.
  \<^item> A function with an effect returns, with its result, the state it leaves
    (the \<^verbatim>\<open>Font\<close> record, the package variables) and the list of the calls it
    made to the outside, so that ``is called at most once'' is a statement about
    that list.
  \<^item> An error return is the left summand of a sum type.
\<close>

section \<open>Strings and runes\<close>

text \<open>
  A Go \<^verbatim>\<open>rune\<close> is an \<^verbatim>\<open>int32\<close> holding a code point; the conversion
  \<^verbatim>\<open>[]rune(name)\<close> only produces values between 0 and 0x10FFFF, so a rune is modelled
  as a natural number.  A Go string that the program reads rune by rune (font names,
  file names, paths) is modelled by the sequence of its code points, that is by
  \<^verbatim>\<open>[]rune(s)\<close>; \<^verbatim>\<open>string(s)\<close> is the identity at this level.  The byte buffer
  that \<^verbatim>\<open>breakLines\<close> reads is modelled further below as a list of bytes.
\<close>

type_synonym rune = nat
type_synonym gostring = "rune list"

text \<open>The runes of an ASCII literal.\<close>

definition ascii :: "string \<Rightarrow> gostring" where
  "ascii cs = map of_char cs"

definition space :: rune where
  "space = 32"

subsection \<open>Package unicode\<close>

text \<open>
  \<^verbatim>\<open>unicode.IsUpper\<close>, \<^verbatim>\<open>IsLower\<close>, \<^verbatim>\<open>IsLetter\<close> and \<^verbatim>\<open>IsSpace\<close> of the Go standard
  library answer from a fixed property table when the rune is at most
  \<^verbatim>\<open>unicode.MaxLatin1\<close> (0xFF) and from the range tables \<^verbatim>\<open>unicode.Upper\<close>,
  \<^verbatim>\<open>unicode.Lower\<close>, \<^verbatim>\<open>unicode.Letter\<close> and \<^verbatim>\<open>unicode.White_Space\<close> otherwise.  The
  Latin-1 part is written out; the range tables, which are data of the standard
  library, are a parameter, and so is the case mapping that \<^verbatim>\<open>unicode.ToLower\<close>
  reads from \<^verbatim>\<open>unicode.CaseRanges\<close> for a rune above ASCII.
\<close>

record unicode_tables =
  Upper :: "rune \<Rightarrow> bool"
  Lower :: "rune \<Rightarrow> bool"
  Letter :: "rune \<Rightarrow> bool"
  White_Space :: "rune \<Rightarrow> bool"
  LowerCase :: "rune \<Rightarrow> rune"

definition MaxLatin1 :: rune where
  "MaxLatin1 = 255"

text \<open>Category Lu within Latin-1: A-Z, and 0xC0-0xDE without the multiplication sign.\<close>

definition latin1_upper :: "rune \<Rightarrow> bool" where
  "latin1_upper r \<longleftrightarrow> (65 \<le> r \<and> r \<le> 90) \<or> (192 \<le> r \<and> r \<le> 214) \<or> (216 \<le> r \<and> r \<le> 222)"

text \<open>Category Ll within Latin-1: a-z, the micro sign, and 0xDF-0xFF without the division sign.\<close>

definition latin1_lower :: "rune \<Rightarrow> bool" where
  "latin1_lower r \<longleftrightarrow> (97 \<le> r \<and> r \<le> 122) \<or> r = 181 \<or> (223 \<le> r \<and> r \<le> 246) \<or> (248 \<le> r \<and> r \<le> 255)"

text \<open>Letters within Latin-1: the two above and the ordinal indicators 0xAA and 0xBA (category Lo).\<close>

definition latin1_letter :: "rune \<Rightarrow> bool" where
  "latin1_letter r \<longleftrightarrow> latin1_upper r \<or> latin1_lower r \<or> r = 170 \<or> r = 186"

definition latin1_space :: "rune \<Rightarrow> bool" where
  "latin1_space r \<longleftrightarrow> r = 9 \<or> r = 10 \<or> r = 11 \<or> r = 12 \<or> r = 13 \<or> r = 32 \<or> r = 133 \<or> r = 160"

definition IsUpper :: "unicode_tables \<Rightarrow> rune \<Rightarrow> bool" where
  "IsUpper T r = (if r \<le> MaxLatin1 then latin1_upper r else Upper T r)"

definition IsLower :: "unicode_tables \<Rightarrow> rune \<Rightarrow> bool" where
  "IsLower T r = (if r \<le> MaxLatin1 then latin1_lower r else Lower T r)"

definition IsLetter :: "unicode_tables \<Rightarrow> rune \<Rightarrow> bool" where
  "IsLetter T r = (if r \<le> MaxLatin1 then latin1_letter r else Letter T r)"

definition IsSpace :: "unicode_tables \<Rightarrow> rune \<Rightarrow> bool" where
  "IsSpace T r = (if r \<le> MaxLatin1 then latin1_space r else White_Space T r)"

text \<open>
  Two facts of the Unicode character database that the range tables satisfy: an
  uppercase letter (category Lu) is a letter (category L), and no letter has the
  property White\_Space.
\<close>

definition tables_ok :: "unicode_tables \<Rightarrow> bool" where
  "tables_ok T \<longleftrightarrow> (\<forall>r. Upper T r \<longrightarrow> Letter T r) \<and> (\<forall>r. Letter T r \<longrightarrow> \<not> White_Space T r)"

text \<open>
  A small instance of the range tables, used to run the definitions: the Greek
  capital letters 0x391-0x3A9 and small letters 0x3B1-0x3C9, the Hiragana letters
  0x3041-0x3096 (category Lo), and the spaces 0x2000-0x200A, 0x2028, 0x2029 and 0x3000;
  the lower case mapping of \<^verbatim>\<open>unicode.ToLower\<close> above ASCII adds 32 to the capital
  letters of Latin-1 and of Greek.
\<close>

definition greek_tables :: unicode_tables where
  "greek_tables = \<lparr>
     Upper = (\<lambda>r. 913 \<le> r \<and> r \<le> 937 \<and> r \<noteq> 930),
     Lower = (\<lambda>r. 945 \<le> r \<and> r \<le> 969),
     Letter = (\<lambda>r. (913 \<le> r \<and> r \<le> 937 \<and> r \<noteq> 930) \<or> (945 \<le> r \<and> r \<le> 969) \<or> (12353 \<le> r \<and> r \<le> 12438)),
     White_Space = (\<lambda>r. (8192 \<le> r \<and> r \<le> 8202) \<or> r = 8232 \<or> r = 8233 \<or> r = 12288),
     LowerCase = (\<lambda>r. if (192 \<le> r \<and> r \<le> 214) \<or> (216 \<le> r \<and> r \<le> 222) \<or>
                           (913 \<le> r \<and> r \<le> 937 \<and> r \<noteq> 930) then r + 32 else r) \<rparr>"

section \<open>The name normalizer\<close>

text \<open>\<^verbatim>\<open>peek\<close>: the rune at index \<open>i\<close>, or 0 past the end.\<close>

definition peek :: "rune list \<Rightarrow> nat \<Rightarrow> rune" where
  "peek r i = (if i < length r then r ! i else 0)"

text \<open>
  The loop of \<^verbatim>\<open>titleCase\<close>.  The arguments are the loop's variables \<^verbatim>\<open>prev\<close> and
  \<^verbatim>\<open>s\<close> and the runes of \<^verbatim>\<open>r\<close> from index \<open>i\<close> on, so that \<^verbatim>\<open>peek(r, i+1)\<close> is
  \<open>peek rest 0\<close>.  The \<^verbatim>\<open>switch\<close> either appends a space (first case) or replaces
  \<^verbatim>\<open>c\<close> by a space (second case); the \<^verbatim>\<open>if\<close> after it reads the replaced \<^verbatim>\<open>c\<close>.
\<close>

fun titleCase_loop :: "unicode_tables \<Rightarrow> rune \<Rightarrow> rune list \<Rightarrow> rune list \<Rightarrow> rune list" where
  "titleCase_loop T prev s [] = s"
| "titleCase_loop T prev s (c # rest) =
     (let s1 = (if IsLower T prev \<and> IsUpper T c then s @ [space] else s);
          c1 = (if IsLower T prev \<and> IsUpper T c then c
                else if \<not> IsLetter T c then space else c);
          s2 = (if IsUpper T prev \<and> IsUpper T c1 \<and> IsLower T (peek rest 0)
                then s1 @ [space] else s1)
      in titleCase_loop T c1 (s2 @ [c1]) rest)"

text \<open>
  \<^verbatim>\<open>strings.TrimSpace\<close>: the string without its leading and trailing runes that
  satisfy \<^verbatim>\<open>unicode.IsSpace\<close>.
\<close>

definition TrimSpace :: "unicode_tables \<Rightarrow> gostring \<Rightarrow> gostring" where
  "TrimSpace T s = rev (dropWhile (IsSpace T) (rev (dropWhile (IsSpace T) s)))"

text \<open>
  The class \<^verbatim>\<open>\s\<close> of package regexp is the ASCII class: tab, newline, form feed,
  carriage return and space.
\<close>

definition re_space :: "rune \<Rightarrow> bool" where
  "re_space r \<longleftrightarrow> r = 9 \<or> r = 10 \<or> r = 12 \<or> r = 13 \<or> r = 32"

text \<open>
  \<^verbatim>\<open>spaceRE.ReplaceAllString(s, " ")\<close> with \<^verbatim>\<open>spaceRE = \s+\<close>: every maximal run of
  \<^verbatim>\<open>\s\<close> runes becomes one space.
\<close>

function spaceRE_ReplaceAll :: "gostring \<Rightarrow> gostring" where
  "spaceRE_ReplaceAll [] = []"
| "spaceRE_ReplaceAll (c # cs) =
     (if re_space c then space # spaceRE_ReplaceAll (dropWhile re_space cs)
      else c # spaceRE_ReplaceAll cs)"
  by pat_completeness auto
termination
  by (relation "measure length") (auto simp: less_Suc_eq_le length_dropWhile_le)

definition titleCase :: "unicode_tables \<Rightarrow> gostring \<Rightarrow> gostring" where
  "titleCase T name = spaceRE_ReplaceAll (TrimSpace T (titleCase_loop T 0 [] name))"

text \<open>
  The shape of the strings that the loop produces, used to show that \<^verbatim>\<open>titleCase\<close>
  leaves its own output alone: every rune is a letter or a space, and at no rune
  would the loop insert a space, given the rune before it and the rune after it.
\<close>

fun stable :: "unicode_tables \<Rightarrow> rune \<Rightarrow> rune list \<Rightarrow> bool" where
  "stable T prev [] = True"
| "stable T prev (c # rest) =
     ((IsLetter T c \<or> c = space) \<and>
      \<not> (IsLower T prev \<and> IsUpper T c) \<and>
      \<not> (IsUpper T prev \<and> IsUpper T c \<and> IsLower T (peek rest 0)) \<and>
      stable T c rest)"

section \<open>The line breaker\<close>

text \<open>
  \<^verbatim>\<open>breakLines\<close> reads a byte buffer: a \<^verbatim>\<open>[]byte\<close> is a list of \<^typ>\<open>char\<close>, the
  8-bit characters of HOL.  A Go \<^verbatim>\<open>int\<close> is taken to be 64 bits wide; sizes are
  integers and the one place where the width matters, the range check of
  \<^verbatim>\<open>strconv.Atoi\<close>, is written out.
\<close>

definition nl :: char where
  "nl = CHR 0x0A"

definition NUL :: char where
  "NUL = CHR 0x00"

text \<open>
  \<^verbatim>\<open>bytes.Split(s, []byte{sep})\<close> for a separator of one byte: the pieces of \<open>s\<close>
  between the separators, in order; a buffer without separator, the empty one too,
  gives one piece.
\<close>

function bytes_Split :: "string \<Rightarrow> char \<Rightarrow> string list" where
  "bytes_Split s sep =
     (case dropWhile (\<lambda>c. c \<noteq> sep) s of
        [] \<Rightarrow> [s]
      | _ # after \<Rightarrow> takeWhile (\<lambda>c. c \<noteq> sep) s # bytes_Split after sep)"
  by pat_completeness auto
termination
proof (relation "measure (\<lambda>(s, sep). length s)")
  show "wf (measure (\<lambda>(s, sep). length s))" by simp
next
  fix s :: string and sep x after
  assume "dropWhile (\<lambda>c. c \<noteq> sep) s = x # after"
  then have "length (x # after) \<le> length s"
    by (metis length_dropWhile_le)
  then show "((after, sep), (s, sep)) \<in> measure (\<lambda>(s, sep). length s)"
    by simp
qed

definition isDigit :: "char \<Rightarrow> bool" where
  "isDigit c \<longleftrightarrow> 48 \<le> (of_char c :: nat) \<and> (of_char c :: nat) \<le> 57"

text \<open>
  \<^verbatim>\<open>sizeRE.FindSubmatch(line)\<close> with \<^verbatim>\<open>sizeRE = ^\x00([0-9]+)\x00(.*)$\<close>: the two
  groups, or \<^verbatim>\<open>nil\<close>.  The expression is anchored at both ends, the digits are
  the longest run after the first NUL (a shorter run is followed by a digit, not by
  NUL), and \<^verbatim>\<open>.\<close> matches everything but a newline.
\<close>

definition sizeRE_FindSubmatch :: "string \<Rightarrow> (string \<times> string) option" where
  "sizeRE_FindSubmatch line =
     (case line of
        [] \<Rightarrow> None
      | c # t \<Rightarrow>
          if c \<noteq> NUL then None
          else let ds = takeWhile isDigit t in
            if ds = [] then None
            else (case dropWhile isDigit t of
                    [] \<Rightarrow> None
                  | z # rest \<Rightarrow> if z = NUL \<and> nl \<notin> set rest then Some (ds, rest) else None))"

definition maxInt :: int where
  "maxInt = 2 ^ 63 - 1"

datatype NumError = ErrSyntax | ErrRange

definition digitVal :: "char \<Rightarrow> int" where
  "digitVal c = int (of_char c) - 48"

definition decimal :: "string \<Rightarrow> int" where
  "decimal ds = foldl (\<lambda>a c. 10 * a + digitVal c) 0 ds"

text \<open>
  \<^verbatim>\<open>strconv.Atoi\<close>: an optional sign and at least one decimal digit, or a syntax
  error; a value outside the range of \<^verbatim>\<open>int\<close> is a range error.
\<close>

definition Atoi :: "string \<Rightarrow> NumError + int" where
  "Atoi s =
     (let neg = (s \<noteq> [] \<and> hd s = CHR ''-'');
          ds = (if s \<noteq> [] \<and> (hd s = CHR ''+'' \<or> hd s = CHR ''-'') then tl s else s)
      in if ds = [] \<or> \<not> list_all isDigit ds then Inl ErrSyntax
         else if neg then (if decimal ds \<le> maxInt + 1 then Inr (- decimal ds) else Inl ErrRange)
         else (if decimal ds \<le> maxInt then Inr (decimal ds) else Inl ErrRange))"

text \<open>
  The loop of \<^verbatim>\<open>breakLines\<close> over the pieces, with the slices \<^verbatim>\<open>lines\<close> and
  \<^verbatim>\<open>sizes\<close> it appends to.  The parameter \<^verbatim>\<open>size\<close> of the source is \<open>size0\<close> here.
  When the expression matches, the line becomes the second group whether or not
  \<^verbatim>\<open>Atoi\<close> accepts the first.
\<close>

fun breakLines_loop :: "int \<Rightarrow> string list \<Rightarrow> string list \<Rightarrow> int list \<Rightarrow> string list \<times> int list" where
  "breakLines_loop size0 [] lines sizes = (lines, sizes)"
| "breakLines_loop size0 (line # others) lines sizes =
     (case sizeRE_FindSubmatch line of
        None \<Rightarrow> breakLines_loop size0 others (lines @ [line]) (sizes @ [size0])
      | Some (m1, m2) \<Rightarrow>
          (let sz = (case Atoi m1 of Inr s \<Rightarrow> s | Inl err \<Rightarrow> size0)
           in breakLines_loop size0 others (lines @ [m2]) (sizes @ [sz])))"

definition breakLines :: "string \<Rightarrow> int \<Rightarrow> string list \<times> int list" where
  "breakLines buf size0 = breakLines_loop size0 (bytes_Split buf nl) [] []"

subsection \<open>The template function \<^verbatim>\<open>size\<close>\<close>

text \<open>The verb \<^verbatim>\<open>%d\<close> of package fmt: the decimal digits, after a minus sign for a negative number.\<close>

function digits :: "nat \<Rightarrow> string" where
  "digits n = (if n < 10 then [char_of (48 + n)] else digits (n div 10) @ [char_of (48 + n mod 10)])"
  by pat_completeness auto
termination
  by (relation "measure id") auto

definition itoa :: "int \<Rightarrow> string" where
  "itoa n = (if n < 0 then CHR ''-'' # digits (nat (- n)) else digits (nat n))"

text \<open>The function \<^verbatim>\<open>size\<close> that \<^verbatim>\<open>NewTemplate\<close> installs: \<^verbatim>\<open>fmt.Sprintf("\x00%d\x00", size)\<close>.\<close>

definition size_helper :: "int \<Rightarrow> string" where
  "size_helper n = NUL # itoa n @ [NUL]"

text \<open>
  The marker as the specification words it: the line is a NUL, the decimal digits
  \<open>ds\<close> (at least one), a NUL, and the text \<open>rest\<close>.
\<close>

definition marker :: "string \<Rightarrow> string \<Rightarrow> string \<Rightarrow> bool" where
  "marker line ds rest \<longleftrightarrow> line = NUL # ds @ NUL # rest \<and> ds \<noteq> [] \<and> list_all isDigit ds"

section \<open>Fonts\<close>

text \<open>
  The \<^verbatim>\<open>Font\<close> struct.  A \<^verbatim>\<open>nil\<close> buffer is \<open>None\<close>; the field \<^verbatim>\<open>once\<close>, a
  \<^verbatim>\<open>sync.Once\<close>, is the flag that tells whether its function has run.
\<close>

record Font =
  Buf :: "string option"
  Path :: gostring
  Family :: gostring
  Name :: gostring
  Style :: gostring
  SampleText :: gostring
  once :: bool

text \<open>
  An error of a library is its message; \<^verbatim>\<open>canvas.FontStyle\<close> and the
  \<^verbatim>\<open>Style\<close> of the font package are integer types that the program only passes on.
\<close>

type_synonym LibError = string
type_synonym FontStyle = int
type_synonym pkgStyle = int

text \<open>
  The errors that \<^verbatim>\<open>Open\<close> and \<^verbatim>\<open>Load\<close> return, by the place that makes them:
  the error of \<^verbatim>\<open>FindSystemFonts\<close> and the one of \<^verbatim>\<open>LoadFont\<close> or \<^verbatim>\<open>LoadFontFile\<close>
  are returned as they are, the other three are made with \<^verbatim>\<open>fmt.Errorf\<close>
  (``unable to open directory'', ``unable to locate font'', ``font.Buf and
  font.Path not set'').
\<close>

datatype error =
    BuildError LibError
  | ReadDirError gostring LibError
  | NotFound gostring
  | NotSet
  | LoadError LibError

text \<open>
  The calls that leave the program, in the order they are made: every function
  below returns the list of those it made.
\<close>

datatype event =
    FindSystemFonts_call
  | Stat_call gostring
  | ReadDir_call gostring
  | LoadFont_call string FontStyle
  | LoadFontFile_call gostring FontStyle
  | NameTable_call

subsection \<open>File names\<close>

definition slash :: rune where
  "slash = 47"

definition dot :: rune where
  "dot = 46"

text \<open>
  \<^verbatim>\<open>filepath.Base\<close> where the separator is the slash: the last element of the
  path, after the trailing slashes are removed; \<^verbatim>\<open>"."\<close> for the empty path and
  \<^verbatim>\<open>"/"\<close> for a path of slashes only.
\<close>

definition Base :: "gostring \<Rightarrow> gostring" where
  "Base path =
     (if path = [] then [dot]
      else let stripped = dropWhile (\<lambda>c. c = slash) (rev path);
               elem = rev (takeWhile (\<lambda>c. c \<noteq> slash) stripped)
           in if elem = [] then [slash] else elem)"

text \<open>
  \<^verbatim>\<open>filepath.Ext\<close>: the suffix that begins at the last dot of the last element
  of the path, empty when that element has no dot.
\<close>

definition Ext :: "gostring \<Rightarrow> gostring" where
  "Ext path =
     (let elem = takeWhile (\<lambda>c. c \<noteq> slash) (rev path)
      in if dot \<in> set elem then rev (takeWhile (\<lambda>c. c \<noteq> dot) elem @ [dot]) else [])"

definition HasSuffix :: "gostring \<Rightarrow> gostring \<Rightarrow> bool" where
  "HasSuffix s suffix \<longleftrightarrow>
     length suffix \<le> length s \<and> drop (length s - length suffix) s = suffix"

definition TrimSuffix :: "gostring \<Rightarrow> gostring \<Rightarrow> gostring" where
  "TrimSuffix s suffix = (if HasSuffix s suffix then take (length s - length suffix) s else s)"

text \<open>
  \<^verbatim>\<open>extRE.MatchString\<close> with \<^verbatim>\<open>extRE = (?i)\.(ttf|ttc|otf|woff|woff2|sfnt)$\<close>.  Under
  the flag \<^verbatim>\<open>i\<close> a letter of the expression matches the runes of its orbit under
  \<^verbatim>\<open>unicode.SimpleFold\<close>: itself, its capital and, for \<^verbatim>\<open>s\<close> and \<^verbatim>\<open>k\<close>, the long s
  (0x17F) and the Kelvin sign (0x212A).
\<close>

definition fold_match :: "rune \<Rightarrow> rune \<Rightarrow> bool" where
  "fold_match p c \<longleftrightarrow>
     c = p \<or> (97 \<le> p \<and> p \<le> 122 \<and> c + 32 = p) \<or> (p = 115 \<and> c = 383) \<or> (p = 107 \<and> c = 8490)"

definition fold_suffix :: "gostring \<Rightarrow> gostring \<Rightarrow> bool" where
  "fold_suffix pat s \<longleftrightarrow>
     length pat \<le> length s \<and> list_all2 fold_match pat (drop (length s - length pat) s)"

definition font_extensions :: "gostring list" where
  "font_extensions = map ascii [''ttf'', ''ttc'', ''otf'', ''woff'', ''woff2'', ''sfnt'']"

definition extRE_MatchString :: "gostring \<Rightarrow> bool" where
  "extRE_MatchString s \<longleftrightarrow> list_ex (\<lambda>ext. fold_suffix (dot # ext) s) font_extensions"

text \<open>
  \<^verbatim>\<open>strings.ToLower\<close> maps \<^verbatim>\<open>unicode.ToLower\<close> over the runes; \<^verbatim>\<open>unicode.ToLower\<close>
  answers by itself up to \<^verbatim>\<open>unicode.MaxASCII\<close>.
\<close>

definition unicode_ToLower :: "unicode_tables \<Rightarrow> rune \<Rightarrow> rune" where
  "unicode_ToLower T r =
     (if r \<le> 127 then (if 65 \<le> r \<and> r \<le> 90 then r + 32 else r) else LowerCase T r)"

definition ToLower :: "unicode_tables \<Rightarrow> gostring \<Rightarrow> gostring" where
  "ToLower T s = map (unicode_ToLower T) s"

subsection \<open>Creating fonts\<close>

text \<open>\<^verbatim>\<open>New\<close>; the fields that the composite literal leaves out have their zero values.\<close>

definition New :: "unicode_tables \<Rightarrow> string option \<Rightarrow> gostring \<Rightarrow> Font" where
  "New T buf path =
     \<lparr> Buf = buf, Path = path,
       Family = titleCase T (TrimSuffix (Base path) (Ext path)),
       Name = [], Style = [], SampleText = [], once = False \<rparr>"

record FontMetadata =
  md_Filename :: gostring
  md_Family :: gostring
  md_Style :: pkgStyle

text \<open>\<^verbatim>\<open>NewFont\<close>; \<open>Style_String\<close> is the method \<^verbatim>\<open>String\<close> of the font package's \<^verbatim>\<open>Style\<close>.\<close>

definition NewFont :: "unicode_tables \<Rightarrow> (pkgStyle \<Rightarrow> gostring) \<Rightarrow> FontMetadata \<Rightarrow> Font" where
  "NewFont T Style_String md =
     (let family = (if md_Family md = []
                    then titleCase T (TrimSuffix (Base (md_Filename md)) (Ext (md_Filename md)))
                    else md_Family md)
      in \<lparr> Buf = None, Path = md_Filename md, Family = family,
           Name = [], Style = Style_String (md_Style md), SampleText = [], once = False \<rparr>)"

subsection \<open>Loading a font\<close>

text \<open>
  What \<^verbatim>\<open>Load\<close> uses of the canvas and font libraries, for a type \<open>'ff\<close> of loaded
  font families: \<open>LoadFont family buf style\<close> is \<^verbatim>\<open>NewFontFamily(family)\<close> followed
  by \<^verbatim>\<open>LoadFont(buf, 0, style)\<close>, an error or the family with the font loaded, and
  \<open>LoadFontFile\<close> likewise for a path; \<open>NameTable ff id\<close> is the list of strings that
  \<^verbatim>\<open>ff.Face(16).Font.SFNT.Name.Get(id)\<close> holds; \<open>ParseStyle_String\<close> is
  \<^verbatim>\<open>ParseStyle(s).String()\<close>.
\<close>

datatype NameID = NameFontFamily | NameFontSubfamily | NameSampleText

record 'ff canvas =
  LoadFont :: "gostring \<Rightarrow> string \<Rightarrow> FontStyle \<Rightarrow> LibError + 'ff"
  LoadFontFile :: "gostring \<Rightarrow> gostring \<Rightarrow> FontStyle \<Rightarrow> LibError + 'ff"
  NameTable :: "'ff \<Rightarrow> NameID \<Rightarrow> gostring list"
  ParseStyle_String :: "gostring \<Rightarrow> gostring"

text \<open>The function that \<^verbatim>\<open>Load\<close> hands to \<^verbatim>\<open>font.once.Do\<close>: three assignments, each under its test.\<close>

definition extract_metadata :: "'ff canvas \<Rightarrow> 'ff \<Rightarrow> Font \<Rightarrow> Font" where
  "extract_metadata C ff font =
     (let font1 = (case NameTable C ff NameFontFamily of
                     [] \<Rightarrow> font | v0 # _ \<Rightarrow> font\<lparr>Name := v0\<rparr>);
          font2 = (case NameTable C ff NameFontSubfamily of
                     [] \<Rightarrow> font1 | v0 # _ \<Rightarrow> font1\<lparr>Style := ParseStyle_String C v0\<rparr>)
      in (case NameTable C ff NameSampleText of
            [] \<Rightarrow> font2 | v0 # _ \<Rightarrow> font2\<lparr>SampleText := v0\<rparr>))"

text \<open>\<^verbatim>\<open>font.once.Do\<close>: the function runs when the flag is not set, and sets it.\<close>

definition font_once_Do :: "'ff canvas \<Rightarrow> 'ff \<Rightarrow> Font \<Rightarrow> Font \<times> event list" where
  "font_once_Do C ff font =
     (if once font then (font, [])
      else ((extract_metadata C ff font)\<lparr>once := True\<rparr>, [NameTable_call]))"

text \<open>
  \<^verbatim>\<open>Load\<close>: the result, the record as the call leaves it, and the calls made.
\<close>

definition Load :: "'ff canvas \<Rightarrow> Font \<Rightarrow> FontStyle \<Rightarrow> (error + 'ff) \<times> Font \<times> event list" where
  "Load C font style =
     (case Buf font of
        Some buf \<Rightarrow>
          (case LoadFont C (Family font) buf style of
             Inl err \<Rightarrow> (Inl (LoadError err), font, [LoadFont_call buf style])
           | Inr ff \<Rightarrow>
               (let (font', evs) = font_once_Do C ff font
                in (Inr ff, font', LoadFont_call buf style # evs)))
      | None \<Rightarrow>
          if Path font \<noteq> [] then
            (case LoadFontFile C (Family font) (Path font) style of
               Inl err \<Rightarrow> (Inl (LoadError err), font, [LoadFontFile_call (Path font) style])
             | Inr ff \<Rightarrow>
                 (let (font', evs) = font_once_Do C ff font
                  in (Inr ff, font', LoadFontFile_call (Path font) style # evs)))
          else (Inl NotSet, font, []))"

text \<open>A sequence of calls of \<^verbatim>\<open>Load\<close> on one record, each with the libraries as they are then.\<close>

fun Load_calls :: "Font \<Rightarrow> ('ff canvas \<times> FontStyle) list \<Rightarrow> (error + 'ff) list \<times> Font \<times> event list" where
  "Load_calls font [] = ([], font, [])"
| "Load_calls font ((C, style) # others) =
     (case Load C font style of
        (r, font', evs) \<Rightarrow>
          (case Load_calls font' others of
             (rs, font'', evs') \<Rightarrow> (r # rs, font'', evs @ evs')))"

subsection \<open>Opening fonts\<close>

text \<open>An entry of \<^verbatim>\<open>os.ReadDir\<close>: its \<^verbatim>\<open>Name()\<close> and \<^verbatim>\<open>IsDir()\<close>.\<close>

record dirEntry =
  entry_Name :: gostring
  entry_IsDir :: bool

text \<open>
  What \<^verbatim>\<open>Open\<close> uses of the operating system and of the libraries, for a type
  \<open>'sf\<close> of system font indexes (a \<^verbatim>\<open>*SystemFonts\<close> is an \<open>'sf option\<close>, \<^verbatim>\<open>nil\<close>
  being \<open>None\<close>):
  \<^item> \<open>tables\<close>: the tables of package unicode;
  \<^item> \<open>FindSystemFonts\<close>: the two results of
    \<^verbatim>\<open>fontpkg.FindSystemFonts(fontpkg.DefaultFontDirs())\<close>;
  \<^item> \<open>Stat\<close>: \<^verbatim>\<open>os.Stat\<close>, an error or \<^verbatim>\<open>fi.IsDir()\<close>;
  \<^item> \<open>ReadDir\<close>: \<^verbatim>\<open>os.ReadDir\<close>, an error or the entries;
  \<^item> \<open>Join\<close>: \<^verbatim>\<open>filepath.Join\<close> of two elements;
  \<^item> \<open>sort_Slice\<close>: \<^verbatim>\<open>sort.Slice\<close>, given the order and the slice;
  \<^item> \<open>SystemFonts_Match\<close>: the method \<^verbatim>\<open>Match\<close> of the index, \<open>None\<close> when its
    second result is false;
  \<^item> \<open>FontStyle_String\<close>, \<open>ParseStyle\<close>, \<open>Style_String\<close>: \<^verbatim>\<open>style.String()\<close> of the
    canvas library, \<^verbatim>\<open>ParseStyle\<close> and \<^verbatim>\<open>String()\<close> of the font package.
\<close>

record 'sf environment =
  tables :: unicode_tables
  FindSystemFonts :: "'sf option \<times> LibError option"
  Stat :: "gostring \<Rightarrow> LibError + bool"
  ReadDir :: "gostring \<Rightarrow> LibError + dirEntry list"
  Join :: "gostring \<Rightarrow> gostring \<Rightarrow> gostring"
  sort_Slice :: "(Font \<Rightarrow> Font \<Rightarrow> bool) \<Rightarrow> Font list \<Rightarrow> Font list"
  SystemFonts_Match :: "'sf option \<Rightarrow> gostring \<Rightarrow> pkgStyle \<Rightarrow> FontMetadata option"
  FontStyle_String :: "FontStyle \<Rightarrow> gostring"
  ParseStyle :: "gostring \<Rightarrow> pkgStyle"
  Style_String :: "pkgStyle \<Rightarrow> gostring"

text \<open>The package variables \<^verbatim>\<open>once\<close> and \<^verbatim>\<open>sfonts\<close>, and their values when the program starts.\<close>

record 'sf globals =
  once_done :: bool
  sfonts :: "'sf option"

definition init_globals :: "'sf globals" where
  "init_globals = \<lparr> once_done = False, sfonts = None \<rparr>"

text \<open>
  \<^verbatim>\<open>Match\<close>: \<^verbatim>\<open>nil\<close> when the index has no match, the font of the metadata
  otherwise.
\<close>

definition Match :: "'sf environment \<Rightarrow> gostring \<Rightarrow> FontStyle \<Rightarrow> 'sf option \<Rightarrow> Font option" where
  "Match E name style sysfonts =
     (case SystemFonts_Match E sysfonts name (ParseStyle E (FontStyle_String E style)) of
        None \<Rightarrow> None
      | Some md \<Rightarrow> Some (NewFont (tables E) (Style_String E) md))"

text \<open>
  \<^verbatim>\<open>once.Do\<close> in \<^verbatim>\<open>Open\<close>: when the flag is not set the function runs, assigns
  \<^verbatim>\<open>sfonts\<close> and the caller's \<^verbatim>\<open>err\<close>, and the flag is set; otherwise \<^verbatim>\<open>err\<close> stays
  \<^verbatim>\<open>nil\<close>.
\<close>

definition once_Do :: "'sf environment \<Rightarrow> 'sf globals \<Rightarrow> LibError option \<times> 'sf globals \<times> event list" where
  "once_Do E g =
     (if once_done g then (None, g, [])
      else (snd (FindSystemFonts E),
            \<lparr> once_done = True, sfonts = fst (FindSystemFonts E) \<rparr>,
            [FindSystemFonts_call]))"

text \<open>The order that \<^verbatim>\<open>Open\<close> gives to \<^verbatim>\<open>sort.Slice\<close>; strings compare byte by byte,
  which on code points is the lexicographic order.\<close>

definition family_less :: "unicode_tables \<Rightarrow> Font \<Rightarrow> Font \<Rightarrow> bool" where
  "family_less T a b \<longleftrightarrow> ToLower T (Family a) < ToLower T (Family b)"

text \<open>The loop over the entries of the directory.\<close>

fun scan_entries :: "'sf environment \<Rightarrow> gostring \<Rightarrow> dirEntry list \<Rightarrow> Font list \<Rightarrow> Font list" where
  "scan_entries E name [] v = v"
| "scan_entries E name (entry # entries) v =
     (let s = entry_Name entry
      in if \<not> entry_IsDir entry \<and> extRE_MatchString s
         then scan_entries E name entries (v @ [New (tables E) None (Join E name s)])
         else scan_entries E name entries v)"

text \<open>The end of \<^verbatim>\<open>Open\<close>: an empty slice is an error.\<close>

definition located :: "gostring \<Rightarrow> Font list \<Rightarrow> error + Font list" where
  "located name v = (if length v = 0 then Inl (NotFound name) else Inr v)"

text \<open>The \<^verbatim>\<open>switch\<close> of \<^verbatim>\<open>Open\<close> and what follows it, for the index in use.\<close>

definition Open_switch ::
  "'sf environment \<Rightarrow> gostring \<Rightarrow> FontStyle \<Rightarrow> 'sf option \<Rightarrow> (error + Font list) \<times> event list" where
  "Open_switch E name style sysfonts =
     (case Stat E name of
        Inr True \<Rightarrow>
          (case ReadDir E name of
             Inl err \<Rightarrow> (Inl (ReadDirError name err), [Stat_call name, ReadDir_call name])
           | Inr entries \<Rightarrow>
               (located name (sort_Slice E (family_less (tables E)) (scan_entries E name entries [])),
                [Stat_call name, ReadDir_call name]))
      | Inr False \<Rightarrow> (located name [New (tables E) None name], [Stat_call name])
      | Inl err \<Rightarrow>
          (located name (case Match E name style sysfonts of Some font \<Rightarrow> [font] | None \<Rightarrow> []),
           [Stat_call name]))"

text \<open>\<^verbatim>\<open>Open\<close>: the result, the package variables as the call leaves them, and the calls made.\<close>

definition Open ::
  "'sf environment \<Rightarrow> 'sf globals \<Rightarrow> gostring \<Rightarrow> FontStyle \<Rightarrow> 'sf option \<Rightarrow>
   (error + Font list) \<times> 'sf globals \<times> event list" where
  "Open E g name style sysfonts =
     (case sysfonts of
        None \<Rightarrow>
          (case once_Do E g of
             (Some err, g', evs) \<Rightarrow> (Inl (BuildError err), g', evs)
           | (None, g', evs) \<Rightarrow>
               (let (r, evs') = Open_switch E name style (sfonts g')
                in (r, g', evs @ evs')))
      | Some sf \<Rightarrow>
          (let (r, evs) = Open_switch E name style (Some sf)
           in (r, g, evs)))"

text \<open>A sequence of calls of \<^verbatim>\<open>Open\<close> without an index, each with the system as it is then.\<close>

fun Open_calls ::
  "'sf globals \<Rightarrow> ('sf environment \<times> gostring \<times> FontStyle) list \<Rightarrow>
   (error + Font list) list \<times> 'sf globals \<times> event list" where
  "Open_calls g [] = ([], g, [])"
| "Open_calls g ((E, name, style) # others) =
     (case Open E g name style None of
        (r, g', evs) \<Rightarrow>
          (case Open_calls g' others of
             (rs, g'', evs') \<Rightarrow> (r # rs, g'', evs @ evs')))"


subsection \<open>An instance of the system\<close>

text \<open>Insertion sort, an instance of \<^verbatim>\<open>sort.Slice\<close>.\<close>

fun insert_by :: "('a \<Rightarrow> 'a \<Rightarrow> bool) \<Rightarrow> 'a \<Rightarrow> 'a list \<Rightarrow> 'a list" where
  "insert_by lt x [] = [x]"
| "insert_by lt x (y # ys) = (if lt y x then y # insert_by lt x ys else x # y # ys)"

fun sort_by :: "('a \<Rightarrow> 'a \<Rightarrow> bool) \<Rightarrow> 'a list \<Rightarrow> 'a list" where
  "sort_by lt [] = []"
| "sort_by lt (x # xs) = insert_by lt x (sort_by lt xs)"

text \<open>
  A system with one directory \<^verbatim>\<open>fonts\<close> of five entries, one of them a directory,
  a file \<^verbatim>\<open>notes.txt\<close>, and an index (a list of metadata) that is built without
  error and matches a name against the families it lists.
\<close>

definition example_entries :: "dirEntry list" where
  "example_entries =
     [\<lparr> entry_Name = ascii ''Beta.woff2'', entry_IsDir = False \<rparr>,
      \<lparr> entry_Name = ascii ''ZetaMono.TTF'', entry_IsDir = False \<rparr>,
      \<lparr> entry_Name = ascii ''alpha.otf'', entry_IsDir = False \<rparr>,
      \<lparr> entry_Name = ascii ''old.ttf'', entry_IsDir = True \<rparr>,
      \<lparr> entry_Name = ascii ''readme.txt'', entry_IsDir = False \<rparr>]"

definition example_index :: "FontMetadata list" where
  "example_index =
     [\<lparr> md_Filename = ascii ''/usr/share/fonts/DejaVuSans.ttf'', md_Family = ascii ''DejaVu Sans'',
        md_Style = 0 \<rparr>]"

definition example_env :: "(FontMetadata list) environment" where
  "example_env =
     \<lparr> tables = greek_tables,
       FindSystemFonts = (Some example_index, None),
       Stat = (\<lambda>name. if name = ascii ''fonts'' then Inr True
                       else if name = ascii ''notes.txt'' then Inr False
                       else Inl ''no such file or directory''),
       ReadDir = (\<lambda>name. if name = ascii ''fonts'' then Inr example_entries
                          else Inl ''not a directory''),
       Join = (\<lambda>dir elem. dir @ slash # elem),
       sort_Slice = sort_by,
       SystemFonts_Match = (\<lambda>sf name style.
          case sf of None \<Rightarrow> None | Some mds \<Rightarrow> find (\<lambda>md. md_Family md = name) mds),
       FontStyle_String = (\<lambda>style. ascii ''Regular''),
       ParseStyle = (\<lambda>s. 0),
       Style_String = (\<lambda>style. ascii ''Regular'') \<rparr>"

text \<open>The same system when the index cannot be built.\<close>

definition failing_env :: "(FontMetadata list) environment" where
  "failing_env = example_env \<lparr> FindSystemFonts := (None, Some ''permission denied'') \<rparr>"

text \<open>
  An instance of the libraries that \<^verbatim>\<open>Load\<close> uses: a loaded family is the list of
  its three names; a buffer loads when it is not empty, the file \<^verbatim>\<open>fonts/alpha.otf\<close>
  loads and no other.
\<close>

definition example_canvas :: "(gostring list) canvas" where
  "example_canvas =
     \<lparr> LoadFont = (\<lambda>family buf style.
          if buf = [] then Inl ''unexpected EOF''
          else Inr [ascii ''Alpha Sans'', ascii ''Bold'', ascii ''Sphinx'']),
       LoadFontFile = (\<lambda>family path style.
          if path = ascii ''fonts/alpha.otf'' then Inr [ascii ''Alpha'', ascii ''Italic'']
          else Inl ''no such file or directory''),
       NameTable = (\<lambda>ff nid.
          case nid of NameFontFamily \<Rightarrow> take 1 ff
                    | NameFontSubfamily \<Rightarrow> take 1 (drop 1 ff)
                    | NameSampleText \<Rightarrow> take 1 (drop 2 ff)),
       ParseStyle_String = (\<lambda>s. s) \<rparr>"

text \<open>A font with a buffer and a path, as yet not loaded.\<close>

definition example_font :: Font where
  "example_font =
     \<lparr> Buf = Some ''OTTO'', Path = ascii ''fonts/alpha.otf'', Family = ascii ''alpha'',
       Name = [], Style = [], SampleText = [], once = False \<rparr>"

section \<open>Properties of the name normalizer\<close>

lemma titleCase_loop_acc: "titleCase_loop T p s r = s @ titleCase_loop T p [] r"
proof (induction r arbitrary: p s)
  case Nil
  then show ?case by simp
next
  case (Cons c rest)
  show ?case
    by (simp add: Let_def Cons.IH [of _ "_ @ [_]"] Cons.IH [of _ "[_]"] Cons.IH [of _ "[_, _]"])
qed

lemma space_neutral [simp]:
  "\<not> IsUpper T space" "\<not> IsLower T space" "\<not> IsLetter T space" "IsSpace T space" "re_space space"
  by (simp_all add: IsUpper_def IsLower_def IsLetter_def IsSpace_def MaxLatin1_def space_def
      latin1_upper_def latin1_lower_def latin1_letter_def latin1_space_def re_space_def)

lemma zero_neutral [simp]: "\<not> IsUpper T 0" "\<not> IsLower T 0"
  by (simp_all add: IsUpper_def IsLower_def MaxLatin1_def latin1_upper_def latin1_lower_def)

lemma upper_letter: "tables_ok T \<Longrightarrow> IsUpper T c \<Longrightarrow> IsLetter T c"
  by (auto simp: tables_ok_def IsUpper_def IsLetter_def latin1_letter_def)

lemma letter_not_IsSpace: "tables_ok T \<Longrightarrow> IsLetter T c \<Longrightarrow> \<not> IsSpace T c"
  by (auto simp: tables_ok_def IsSpace_def IsLetter_def latin1_letter_def latin1_space_def
      latin1_upper_def latin1_lower_def)

lemma letter_not_re_space: "IsLetter T c \<Longrightarrow> \<not> re_space c"
  by (auto simp: IsLetter_def latin1_letter_def re_space_def MaxLatin1_def
      latin1_upper_def latin1_lower_def split: if_splits)

lemma peek_Nil [simp]: "peek [] 0 = 0"
  by (simp add: peek_def)

lemma peek_Cons [simp]: "peek (c # cs) 0 = c"
  by (simp add: peek_def)

lemma peek_append: "w \<noteq> [] \<Longrightarrow> peek (w @ ys) 0 = peek w 0"
  by (cases w) simp_all

lemma lower_peek_loop: "IsLower T (peek (titleCase_loop T p [] r) 0) \<Longrightarrow> IsLower T (peek r 0)"
  by (cases r) (simp_all add: Let_def titleCase_loop_acc [of _ _ "[_]"] titleCase_loop_acc [of _ _ "[_, _]"] 
        titleCase_loop_acc [of _ _ "[_, _, _]"]  split: if_splits)

lemma stable_fixed: "stable T p w \<Longrightarrow> titleCase_loop T p [] w = w"
proof (induction w arbitrary: p)
  case Nil
  then show ?case by simp
next
  case (Cons c rest)
  then show ?case
    by (auto simp: Let_def titleCase_loop_acc [of _ _ "[_]"])
qed

lemma stable_loop: "tables_ok T \<Longrightarrow> stable T p (titleCase_loop T p [] r)"
proof (induction r arbitrary: p)
  case Nil
  then show ?case by simp
next
  case (Cons c rest)
  note ih = Cons.IH [OF Cons.prems]
  show ?case
    using ih upper_letter [OF Cons.prems] lower_peek_loop [of T _ rest]
    by (auto simp: Let_def titleCase_loop_acc [of _ _ "[_]"] titleCase_loop_acc [of _ _ "[_, _]"] 
        titleCase_loop_acc [of _ _ "[_, _, _]"])
qed


lemma stable_neutral:
  "stable T p w \<Longrightarrow> \<not> IsUpper T q \<Longrightarrow> \<not> IsLower T q \<Longrightarrow> stable T q w"
  by (cases w) auto

lemma stable_prefix: "stable T p (w @ ys) \<Longrightarrow> stable T p w"
proof (induction w arbitrary: p)
  case Nil
  then show ?case by simp
next
  case (Cons c rest)
  then show ?case
    by (cases rest) auto
qed

lemma stable_dropWhile_IsSpace:
  "tables_ok T \<Longrightarrow> stable T p w \<Longrightarrow> \<not> IsUpper T p \<Longrightarrow> \<not> IsLower T p \<Longrightarrow>
   stable T p (dropWhile (IsSpace T) w)"
proof (induction w arbitrary: p)
  case Nil
  then show ?case by simp
next
  case (Cons c rest)
  show ?case
  proof (cases "IsSpace T c")
    case True
    with Cons.prems have c: "c = space"
      using letter_not_IsSpace by auto
    with Cons.prems have "stable T space rest" by simp
    then have "stable T space (dropWhile (IsSpace T) rest)"
      using Cons.IH [OF Cons.prems(1)] by simp
    then show ?thesis
      using True Cons.prems(3,4) by (simp add: stable_neutral)
  next
    case False
    then show ?thesis using Cons.prems by simp
  qed
qed

lemma stable_dropWhile_re_space:
  "stable T p w \<Longrightarrow> \<not> IsUpper T p \<Longrightarrow> \<not> IsLower T p \<Longrightarrow> stable T p (dropWhile re_space w)"
proof (induction w arbitrary: p)
  case Nil
  then show ?case by simp
next
  case (Cons c rest)
  show ?case
  proof (cases "re_space c")
    case True
    with Cons.prems have c: "c = space"
      using letter_not_re_space by auto
    with Cons.prems have "stable T space rest" by simp
    then have "stable T space (dropWhile re_space rest)"
      using Cons.IH by simp
    then show ?thesis
      using True Cons.prems(2,3) by (simp add: stable_neutral)
  next
    case False
    then show ?thesis using Cons.prems by simp
  qed
qed

lemma TrimSpace_prefix:
  "\<exists>ys. dropWhile (IsSpace T) s = TrimSpace T s @ ys"
proof -
  let ?w = "dropWhile (IsSpace T) s"
  have "rev (takeWhile (IsSpace T) (rev ?w) @ dropWhile (IsSpace T) (rev ?w)) = ?w"
    by (simp only: takeWhile_dropWhile_id rev_rev_ident)
  then have "?w = TrimSpace T s @ rev (takeWhile (IsSpace T) (rev ?w))"
    by (simp only: TrimSpace_def rev_append)
  then show ?thesis ..
qed

lemma stable_TrimSpace:
  assumes "tables_ok T" "stable T 0 w"
  shows "stable T 0 (TrimSpace T w)"
proof -
  have "stable T 0 (dropWhile (IsSpace T) w)"
    using assms by (simp add: stable_dropWhile_IsSpace)
  moreover obtain ys where "dropWhile (IsSpace T) w = TrimSpace T w @ ys"
    using TrimSpace_prefix by blast
  ultimately show ?thesis
    using stable_prefix by metis
qed

lemma lower_peek_ReplaceAll:
  "IsLower T (peek (spaceRE_ReplaceAll w) 0) \<Longrightarrow> IsLower T (peek w 0)"
  by (cases w) (simp_all split: if_splits)

lemma stable_ReplaceAll: "stable T p w \<Longrightarrow> stable T p (spaceRE_ReplaceAll w)"
proof (induction w arbitrary: p rule: spaceRE_ReplaceAll.induct)
  case 1
  then show ?case by simp
next
  case (2 c cs)
  show ?case
  proof (cases "re_space c")
    case True
    with "2.prems" have c: "c = space"
      using letter_not_re_space by auto
    with "2.prems" have "stable T space cs" by simp
    then have "stable T space (dropWhile re_space cs)"
      by (simp add: stable_dropWhile_re_space)
    then have "stable T space (spaceRE_ReplaceAll (dropWhile re_space cs))"
      using "2.IH"(1) True by simp
    then show ?thesis
      using True by simp
  next
    case False
    with "2.prems" have "stable T c (spaceRE_ReplaceAll cs)"
      using "2.IH"(2) by simp
    then show ?thesis
      using False "2.prems" lower_peek_ReplaceAll [of T cs] by auto
  qed
qed

lemma stable_titleCase: "tables_ok T \<Longrightarrow> stable T 0 (titleCase T r)"
  unfolding titleCase_def
  by (intro stable_ReplaceAll stable_TrimSpace stable_loop)


lemma stable_clean: "stable T p w \<Longrightarrow> c \<in> set w \<Longrightarrow> IsLetter T c \<or> c = space"
  by (induction w arbitrary: p) auto

lemma ReplaceAll_hd:
  "w \<noteq> [] \<Longrightarrow> \<not> re_space (hd w) \<Longrightarrow>
   spaceRE_ReplaceAll w \<noteq> [] \<and> hd (spaceRE_ReplaceAll w) = hd w"
  by (cases w) simp_all

lemma ReplaceAll_last:
  "w \<noteq> [] \<Longrightarrow> \<not> re_space (last w) \<Longrightarrow>
   spaceRE_ReplaceAll w \<noteq> [] \<and> last (spaceRE_ReplaceAll w) = last w"
proof (induction w rule: spaceRE_ReplaceAll.induct)
  case 1
  then show ?case by simp
next
  case (2 c cs)
  show ?case
  proof (cases "re_space c")
    case True
    with "2.prems" have cs: "cs \<noteq> []" "\<not> re_space (last cs)"
      by (auto split: if_splits)
    then have ex: "\<exists>x\<in>set cs. \<not> re_space x"
      using last_in_set by blast
    then have d: "dropWhile re_space cs \<noteq> []"
      by simp
    have "last (takeWhile re_space cs @ dropWhile re_space cs) = last (dropWhile re_space cs)"
      using d by (simp only: last_append if_False)
    then have l: "last (dropWhile re_space cs) = last cs"
      by simp
    show ?thesis
      using "2.IH"(1) [OF True d] cs l True by simp
  next
    case False
    show ?thesis
    proof (cases "cs = []")
      case True
      then show ?thesis using False by simp
    next
      case nonempty: False
      then show ?thesis
        using "2.IH"(2) [OF False nonempty] False "2.prems" by simp
    qed
  qed
qed

lemma ReplaceAll_idem: "spaceRE_ReplaceAll (spaceRE_ReplaceAll w) = spaceRE_ReplaceAll w"
proof (induction w rule: spaceRE_ReplaceAll.induct)
  case 1
  then show ?case by simp
next
  case (2 c cs)
  show ?case
  proof (cases "re_space c")
    case True
    let ?d = "dropWhile re_space cs"
    have "dropWhile re_space (spaceRE_ReplaceAll ?d) = spaceRE_ReplaceAll ?d"
    proof (cases "?d = []")
      case True
      show ?thesis unfolding True by simp
    next
      case False
      then have "\<not> re_space (hd ?d)"
        using hd_dropWhile by blast
      with False have "spaceRE_ReplaceAll ?d \<noteq> [] \<and> hd (spaceRE_ReplaceAll ?d) = hd ?d"
        by (rule ReplaceAll_hd)
      with \<open>\<not> re_space (hd ?d)\<close> show ?thesis
        by (cases "spaceRE_ReplaceAll ?d") auto
    qed
    then show ?thesis
      using True "2.IH"(1) by simp
  next
    case False
    then show ?thesis using "2.IH"(2) by simp
  qed
qed

lemma dropWhile_hd_id: "xs \<noteq> [] \<Longrightarrow> \<not> P (hd xs) \<Longrightarrow> dropWhile P xs = xs"
  by (cases xs) simp_all

lemma TrimSpace_ends:
  "TrimSpace T s = [] \<or> (\<not> IsSpace T (hd (TrimSpace T s)) \<and> \<not> IsSpace T (last (TrimSpace T s)))"
proof (cases "TrimSpace T s = []")
  case True
  then show ?thesis by simp
next
  case False
  let ?w = "dropWhile (IsSpace T) s"
  let ?v = "dropWhile (IsSpace T) (rev ?w)"
  from False have v: "?v \<noteq> []" by (simp add: TrimSpace_def)
  then have hv: "\<not> IsSpace T (hd ?v)" using hd_dropWhile by blast
  have last_t: "last (TrimSpace T s) = hd ?v"
    using v by (simp add: TrimSpace_def last_rev)
  have w: "?w \<noteq> []"
  proof
    assume e: "?w = []"
    have "?v = []" unfolding e by simp
    with v show False by blast
  qed
  then have hw: "\<not> IsSpace T (hd ?w)" using hd_dropWhile by blast
  have "hd (rev ?v) = last ?v" using v by (simp add: hd_rev)
  also have "last ?v = last (rev ?w)"
  proof -
    have "last (takeWhile (IsSpace T) (rev ?w) @ ?v) = last ?v"
      using v by (simp only: last_append if_False)
    then show ?thesis by simp
  qed
  also have "\<dots> = hd ?w" using w by (simp add: last_rev)
  finally have "hd (TrimSpace T s) = hd ?w" by (simp add: TrimSpace_def)
  with hw hv last_t show ?thesis by simp
qed

lemma TrimSpace_fixed:
  "w = [] \<or> (\<not> IsSpace T (hd w) \<and> \<not> IsSpace T (last w)) \<Longrightarrow> TrimSpace T w = w"
proof (cases w)
  case Nil
  then show ?thesis by (simp add: TrimSpace_def)
next
  case (Cons c cs)
  assume "w = [] \<or> (\<not> IsSpace T (hd w) \<and> \<not> IsSpace T (last w))"
  with Cons have h: "\<not> IsSpace T (hd w)" and l: "\<not> IsSpace T (last w)" by auto
  from Cons h have 1: "dropWhile (IsSpace T) w = w" by simp
  from Cons have "rev w \<noteq> []" "hd (rev w) = last w" by (simp_all add: hd_rev)
  with l have 2: "dropWhile (IsSpace T) (rev w) = rev w"
    by (intro dropWhile_hd_id) simp_all
  show ?thesis by (simp add: TrimSpace_def 1 2)
qed


lemma greek_tables_ok: "tables_ok greek_tables"
  by (auto simp: tables_ok_def greek_tables_def)

text \<open>
  Claim C1, as the code has it.  On \<^verbatim>\<open>ABCWord\<close> the loop inserts one space, before the
  \<^verbatim>\<open>W\<close>: that is the only capital that follows a capital and is followed by a small
  letter.  The result is \<^verbatim>\<open>ABC Word\<close>, whatever the tables say above Latin-1.
\<close>

theorem titleCase_ABCWord: "titleCase T (ascii ''ABCWord'') = ascii ''ABC Word''"
  by (simp add: titleCase_def ascii_def TrimSpace_def IsUpper_def IsLower_def IsLetter_def IsSpace_def
      MaxLatin1_def latin1_upper_def latin1_lower_def latin1_letter_def latin1_space_def peek_def space_def
      re_space_def)

text \<open>The result is not the \<^verbatim>\<open>AB CWord\<close> of the specification.\<close>

theorem titleCase_ABCWord_counterexample:
  "titleCase greek_tables (ascii ''ABCWord'') \<noteq> ascii ''AB CWord''"
  by (simp add: titleCase_def ascii_def TrimSpace_def IsUpper_def IsLower_def IsLetter_def IsSpace_def
      MaxLatin1_def latin1_upper_def latin1_lower_def latin1_letter_def latin1_space_def peek_def space_def
      re_space_def)

text \<open>
  Claim C2.  The claim asks for \<^verbatim>\<open>My Font Name\<close> on \<^verbatim>\<open>myFontName123\<close>, and the comment of
  \<^verbatim>\<open>titleCase\<close> says that it ``returns the title case for a name''.  The code makes
  the boundaries between a small letter and a capital single spaces, turns the
  digits into spaces and trims them, but nothing in it changes a letter: at this
  input it returns \<^verbatim>\<open>my Font Name\<close>, with the small \<^verbatim>\<open>m\<close> of the input, which is not
  title case.  The theorem is the value of the code at this input.
\<close>

theorem titleCase_myFontName123: "titleCase T (ascii ''myFontName123'') = ascii ''my Font Name''"
  by (simp add: titleCase_def ascii_def TrimSpace_def IsUpper_def IsLower_def IsLetter_def IsSpace_def
      MaxLatin1_def latin1_upper_def latin1_lower_def latin1_letter_def latin1_space_def peek_def space_def
      re_space_def)

text \<open>The value differs from the \<^verbatim>\<open>My Font Name\<close> of the claim in its first rune.\<close>

lemma titleCase_myFontName123_not_title_case:
  "titleCase greek_tables (ascii ''myFontName123'') \<noteq> ascii ''My Font Name''"
  by (simp add: titleCase_def ascii_def TrimSpace_def IsUpper_def IsLower_def IsLetter_def IsSpace_def
      MaxLatin1_def latin1_upper_def latin1_lower_def latin1_letter_def latin1_space_def peek_def space_def
      re_space_def)

text \<open>
  Claim C9.  \<^verbatim>\<open>titleCase\<close> is a function of its argument (and of the tables of
  package unicode), and it is idempotent: applied to its own result it returns that
  result.  The tables are those of Unicode, where a capital letter is a letter and
  no letter is white space.
\<close>

theorem titleCase_idempotent:
  assumes "tables_ok T"
  shows "titleCase T (titleCase T s) = titleCase T s"
proof -
  let ?u = "titleCase_loop T 0 [] s"
  let ?v = "TrimSpace T ?u"
  let ?t = "titleCase T s"
  have t: "?t = spaceRE_ReplaceAll ?v" by (simp add: titleCase_def)
  have st_v: "stable T 0 ?v"
    using assms by (intro stable_TrimSpace stable_loop)
  have st_t: "stable T 0 ?t"
    using assms by (rule stable_titleCase)
  then have loop: "titleCase_loop T 0 [] ?t = ?t"
    by (rule stable_fixed)
  have trim: "TrimSpace T ?t = ?t"
  proof (cases "?v = []")
    case True
    have "?t = []" unfolding t True by simp
    then show ?thesis by (simp add: TrimSpace_def)
  next
    case False
    with TrimSpace_ends [of T ?u]
    have ends: "\<not> IsSpace T (hd ?v)" "\<not> IsSpace T (last ?v)" by auto
    have "hd ?v \<in> set ?v" "last ?v \<in> set ?v" using False by simp_all
    then have "IsLetter T (hd ?v) \<or> hd ?v = space" "IsLetter T (last ?v) \<or> last ?v = space"
      using st_v stable_clean by blast+
    with ends have "IsLetter T (hd ?v)" "IsLetter T (last ?v)" by auto
    then have nre: "\<not> re_space (hd ?v)" "\<not> re_space (last ?v)"
      by (simp_all add: letter_not_re_space)
    have "?t \<noteq> [] \<and> hd ?t = hd ?v" "?t \<noteq> [] \<and> last ?t = last ?v"
      unfolding t using False nre by (simp_all add: ReplaceAll_hd ReplaceAll_last)
    with ends show ?thesis
      by (intro TrimSpace_fixed) simp
  qed
  have "titleCase T ?t = spaceRE_ReplaceAll (TrimSpace T (titleCase_loop T 0 [] ?t))"
    by (simp add: titleCase_def)
  also have "\<dots> = spaceRE_ReplaceAll ?t" by (simp only: loop trim)
  also have "\<dots> = ?t" unfolding t by (rule ReplaceAll_idem)
  finally show ?thesis .
qed


theorem titleCase_idempotent_witness:
  "tables_ok greek_tables \<and>
   titleCase greek_tables (titleCase greek_tables (ascii ''my_ABCWord7'' @ [945, 914, 8195, 12354])) =
   titleCase greek_tables (ascii ''my_ABCWord7'' @ [945, 914, 8195, 12354])"
  by (rule conjI [OF greek_tables_ok titleCase_idempotent [OF greek_tables_ok]])

section \<open>Properties of the line breaker\<close>

declare digits.simps [simp del]
declare bytes_Split.simps [simp del]

lemma breakLines_loop_map:
  "breakLines_loop b ls lines sizes =
     (lines @ map (\<lambda>l. case sizeRE_FindSubmatch l of None \<Rightarrow> l | Some (m1, m2) \<Rightarrow> m2) ls,
      sizes @ map (\<lambda>l. case sizeRE_FindSubmatch l of None \<Rightarrow> b
                        | Some (m1, m2) \<Rightarrow> (case Atoi m1 of Inr s \<Rightarrow> s | Inl err \<Rightarrow> b)) ls)"
  by (induction ls arbitrary: lines sizes) (auto split: option.splits)

lemma bytes_Split_nonempty: "bytes_Split s sep \<noteq> []"
  by (subst bytes_Split.simps) (simp split: list.splits)

lemma bytes_Split_no_sep: "sep \<notin> set s \<Longrightarrow> bytes_Split s sep = [s]"
proof -
  assume "sep \<notin> set s"
  then have d: "dropWhile (\<lambda>c. c \<noteq> sep) s = []" by auto
  show ?thesis by (subst bytes_Split.simps) (simp only: d list.case)
qed

lemma bytes_Split_first:
  assumes "sep \<notin> set a"
  shows "bytes_Split (a @ sep # b) sep = a # bytes_Split b sep"
proof -
  from assms have d: "dropWhile (\<lambda>c. c \<noteq> sep) (a @ sep # b) = sep # b"
    by (simp add: dropWhile_append)
  from assms have t: "takeWhile (\<lambda>c. c \<noteq> sep) (a @ sep # b) = a"
    by (simp add: takeWhile_append)
  show ?thesis
    by (subst bytes_Split.simps) (simp only: d t list.case)
qed

lemma bytes_Split_lines: "l \<in> set (bytes_Split s sep) \<Longrightarrow> sep \<notin> set l"
proof (induction s sep arbitrary: l rule: bytes_Split.induct)
  case (1 s sep)
  show ?case
  proof (cases "dropWhile (\<lambda>c. c \<noteq> sep) s")
    case Nil
    then have "sep \<notin> set s" by auto
    moreover from "1.prems" have "l = s"
      by (subst (asm) bytes_Split.simps) (simp only: Nil list.case list.set singleton_iff empty_iff)
    ultimately show ?thesis by simp
  next
    case (Cons x after)
    from "1.prems" have "l = takeWhile (\<lambda>c. c \<noteq> sep) s \<or> l \<in> set (bytes_Split after sep)"
      by (subst (asm) bytes_Split.simps) (simp only: Cons list.case set_ConsD)
    then show ?thesis
    proof
      assume "l = takeWhile (\<lambda>c. c \<noteq> sep) s"
      then show ?thesis using set_takeWhileD by fastforce
    next
      assume "l \<in> set (bytes_Split after sep)"
      then show ?thesis using "1.IH" Cons by blast
    qed
  qed
qed

lemma NUL_not_digit [simp]: "\<not> isDigit NUL"
  by (simp add: isDigit_def NUL_def)

lemma isDigit_char_of: "d < 10 \<Longrightarrow> isDigit (char_of (48 + d :: nat))"
  by (simp add: isDigit_def)

lemma digitVal_char_of: "d < 10 \<Longrightarrow> digitVal (char_of (48 + d :: nat)) = int d"
  by (simp add: digitVal_def)

lemma digits_nonempty: "digits n \<noteq> []"
  by (subst digits.simps) simp

lemma digits_all: "list_all isDigit (digits n)"
proof (induction n rule: digits.induct)
  case (1 n)
  show ?case
  proof (cases "n < 10")
    case True
    then show ?thesis by (subst digits.simps) (simp add: isDigit_char_of)
  next
    case False
    then show ?thesis
      using "1.IH" by (subst digits.simps) (simp add: isDigit_char_of)
  qed
qed

lemma decimal_snoc: "decimal (xs @ [c]) = 10 * decimal xs + digitVal c"
  by (simp add: decimal_def)

lemma decimal_digits: "decimal (digits n) = int n"
proof (induction n rule: digits.induct)
  case (1 n)
  show ?case
  proof (cases "n < 10")
    case True
    then show ?thesis
      by (subst digits.simps) (simp add: decimal_def digitVal_char_of)
  next
    case False
    then have "decimal (digits (n div 10)) = int (n div 10)" using "1.IH" by simp
    with False show ?thesis
      by (subst digits.simps) (simp add: decimal_snoc digitVal_char_of zdiv_int zmod_int)
  qed
qed

lemma Atoi_digits:
  assumes "ds \<noteq> []" "list_all isDigit ds"
  shows "Atoi ds = (if decimal ds \<le> maxInt then Inr (decimal ds) else Inl ErrRange)"
proof -
  from assms have "isDigit (hd ds)" by (cases ds) simp_all
  then have "hd ds \<noteq> CHR ''-''" "hd ds \<noteq> CHR ''+''"
    by (auto simp: isDigit_def)
  with assms show ?thesis by (simp add: Atoi_def)
qed

lemma FindSubmatch_marker:
  assumes "marker line ds rest" "nl \<notin> set rest"
  shows "sizeRE_FindSubmatch line = Some (ds, rest)"
proof -
  from assms(1) have l: "line = NUL # ds @ NUL # rest" and ne: "ds \<noteq> []" and d: "list_all isDigit ds"
    by (simp_all add: marker_def)
  from d have t: "takeWhile isDigit (ds @ NUL # rest) = ds"
    by (simp add: takeWhile_append list_all_iff)
  from d have r: "dropWhile isDigit (ds @ NUL # rest) = NUL # rest"
    by (simp add: dropWhile_append list_all_iff)
  show ?thesis
    unfolding sizeRE_FindSubmatch_def l using ne assms(2) by (simp add: t r)
qed

lemma FindSubmatch_Some:
  assumes "sizeRE_FindSubmatch line = Some (ds, rest)"
  shows "marker line ds rest"
proof -
  from assms obtain t where l: "line = NUL # t" and ds: "ds = takeWhile isDigit t" "ds \<noteq> []"
    and r: "dropWhile isDigit t = NUL # rest"
    by (auto simp: sizeRE_FindSubmatch_def Let_def split: list.splits if_splits)
  have "t = takeWhile isDigit t @ dropWhile isDigit t" by simp
  with ds r have "t = ds @ NUL # rest" by simp
  moreover have "list_all isDigit ds"
    unfolding ds(1) list_all_iff using set_takeWhileD by fastforce
  ultimately show ?thesis using l ds(2) by (simp add: marker_def)
qed


lemma size_helper_marker: "0 \<le> N \<Longrightarrow> marker (size_helper N @ h) (digits (nat N)) h"
  by (simp add: marker_def size_helper_def itoa_def digits_nonempty digits_all)

lemma breakLines_map:
  "breakLines buf b =
     (map (\<lambda>l. case sizeRE_FindSubmatch l of None \<Rightarrow> l | Some (m1, m2) \<Rightarrow> m2) (bytes_Split buf nl),
      map (\<lambda>l. case sizeRE_FindSubmatch l of None \<Rightarrow> b
                 | Some (m1, m2) \<Rightarrow> (case Atoi m1 of Inr s \<Rightarrow> s | Inl err \<Rightarrow> b)) (bytes_Split buf nl))"
  by (simp add: breakLines_def breakLines_loop_map)

lemma breakLines_marked:
  assumes "0 \<le> N" "N \<le> maxInt" "nl \<notin> set h" "nl \<notin> set w" "sizeRE_FindSubmatch w = None"
  shows "breakLines (size_helper N @ h @ nl # w) B = ([h, w], [N, B])"
proof -
  have nonl: "nl \<notin> set (size_helper N @ h)"
    using assms(3) digits_all [of "nat N"] assms(1)
    by (auto simp: size_helper_def itoa_def NUL_def nl_def list_all_iff isDigit_def)
  have split: "bytes_Split ((size_helper N @ h) @ nl # w) nl = [size_helper N @ h, w]"
    using bytes_Split_first [OF nonl, of w] bytes_Split_no_sep [OF assms(4)] by simp
  have m: "sizeRE_FindSubmatch (size_helper N @ h) = Some (digits (nat N), h)"
    using size_helper_marker [OF assms(1)] assms(3) by (rule FindSubmatch_marker)
  have a: "Atoi (digits (nat N)) = Inr N"
    using assms(1,2) by (simp add: Atoi_digits digits_nonempty digits_all decimal_digits)
  show ?thesis
    using split by (simp add: breakLines_map m a assms(5))
qed

lemma breakLines_lines:
  fixes buf :: string and B :: int
  defines "ls \<equiv> bytes_Split buf nl"
  shows "length (fst (breakLines buf B)) = length ls \<and>
         length (snd (breakLines buf B)) = length ls \<and>
         (\<forall>i<length ls.
            (\<forall>ds rest. marker (ls ! i) ds rest \<longrightarrow>
               fst (breakLines buf B) ! i = rest \<and>
               snd (breakLines buf B) ! i = (if decimal ds \<le> maxInt then decimal ds else B)) \<and>
            ((\<forall>ds rest. \<not> marker (ls ! i) ds rest) \<longrightarrow>
               fst (breakLines buf B) ! i = ls ! i \<and> snd (breakLines buf B) ! i = B))"
proof (intro conjI allI impI)
  show "length (fst (breakLines buf B)) = length ls" "length (snd (breakLines buf B)) = length ls"
    by (simp_all add: breakLines_map ls_def)
next
  fix i ds rest
  assume i: "i < length ls" and mk: "marker (ls ! i) ds rest"
  from i have "ls ! i \<in> set (bytes_Split buf nl)" by (simp add: ls_def)
  then have "nl \<notin> set (ls ! i)" by (rule bytes_Split_lines)
  with mk have "nl \<notin> set rest" by (auto simp: marker_def)
  with mk have f: "sizeRE_FindSubmatch (ls ! i) = Some (ds, rest)" by (rule FindSubmatch_marker)
  from mk have a: "Atoi ds = (if decimal ds \<le> maxInt then Inr (decimal ds) else Inl ErrRange)"
    by (simp add: marker_def Atoi_digits)
  from i f show "fst (breakLines buf B) ! i = rest"
    by (simp add: breakLines_map ls_def)
  from i f a show "snd (breakLines buf B) ! i = (if decimal ds \<le> maxInt then decimal ds else B)"
    by (simp add: breakLines_map ls_def)
next
  fix i
  assume i: "i < length ls" and no: "\<forall>ds rest. \<not> marker (ls ! i) ds rest"
  have f: "sizeRE_FindSubmatch (ls ! i) = None"
  proof (cases "sizeRE_FindSubmatch (ls ! i)")
    case None
    then show ?thesis .
  next
    case (Some p)
    then have "marker (ls ! i) (fst p) (snd p)" by (intro FindSubmatch_Some) simp
    with no show ?thesis by blast
  qed
  from i f show "fst (breakLines buf B) ! i = ls ! i" "snd (breakLines buf B) ! i = B"
    by (simp_all add: breakLines_map ls_def)
qed


lemma no_marker_FindSubmatch:
  "(\<forall>ds rest. \<not> marker w ds rest) \<Longrightarrow> sizeRE_FindSubmatch w = None"
proof (cases "sizeRE_FindSubmatch w")
  case None
  then show ?thesis .
next
  case (Some p)
  assume no: "\<forall>ds rest. \<not> marker w ds rest"
  from Some have "marker w (fst p) (snd p)" by (intro FindSubmatch_Some) simp
  with no show ?thesis by blast
qed

text \<open>
  Claim C3, as the code has it.  The marker that \<^verbatim>\<open>breakLines\<close> recognises is a
  NUL, decimal digits and a NUL, so the function \<^verbatim>\<open>size\<close> of the templates
  round-trips for the sizes it prints without a sign: for \<open>0 \<le> N\<close>, a base size
  \<open>B\<close> and texts \<open>h\<close> and \<open>w\<close> without newline, \<open>w\<close> without marker, breaking the
  output of \<^verbatim>\<open>size N\<close> followed by \<open>h\<close>, a newline and \<open>w\<close> gives the lines \<open>h\<close>,
  \<open>w\<close> with the sizes \<open>N\<close>, \<open>B\<close>.  For every buffer, the lines and the sizes are
  as many as the pieces between the newlines and in their order; a piece with a
  marker gives the text after the marker and the value of the digits when that
  value fits a Go \<^verbatim>\<open>int\<close>, the base size when it does not; a piece without a marker
  gives itself and the base size.
\<close>

theorem breakLines_roundtrip:
  "(0 \<le> N \<and> N \<le> maxInt \<and> nl \<notin> set h \<and> nl \<notin> set w \<and> (\<forall>ds rest. \<not> marker w ds rest) \<longrightarrow>
      breakLines (size_helper N @ h @ nl # w) B = ([h, w], [N, B])) \<and>
   length (fst (breakLines buf B)) = length (bytes_Split buf nl) \<and>
   length (snd (breakLines buf B)) = length (bytes_Split buf nl) \<and>
   (\<forall>i<length (bytes_Split buf nl).
      (\<forall>ds rest. marker (bytes_Split buf nl ! i) ds rest \<longrightarrow>
         fst (breakLines buf B) ! i = rest \<and>
         snd (breakLines buf B) ! i = (if decimal ds \<le> maxInt then decimal ds else B)) \<and>
      ((\<forall>ds rest. \<not> marker (bytes_Split buf nl ! i) ds rest) \<longrightarrow>
         fst (breakLines buf B) ! i = bytes_Split buf nl ! i \<and> snd (breakLines buf B) ! i = B))"
proof -
  have "breakLines (size_helper N @ h @ nl # w) B = ([h, w], [N, B])"
    if "0 \<le> N \<and> N \<le> maxInt \<and> nl \<notin> set h \<and> nl \<notin> set w \<and> (\<forall>ds rest. \<not> marker w ds rest)"
    using that by (intro breakLines_marked no_marker_FindSubmatch) simp_all
  then have first: "0 \<le> N \<and> N \<le> maxInt \<and> nl \<notin> set h \<and> nl \<notin> set w \<and> (\<forall>ds rest. \<not> marker w ds rest) \<longrightarrow>
      breakLines (size_helper N @ h @ nl # w) B = ([h, w], [N, B])"
    by (rule impI)
  show ?thesis
    by (rule conjI [OF first breakLines_lines])
qed

text \<open>
  The size 48 before \<^verbatim>\<open>Hello\<close>, and the buffer of the two pieces \<^verbatim>\<open>NUL 7 NUL a\<close> and
  \<^verbatim>\<open>b\<close> broken with the same base size.
\<close>

theorem breakLines_roundtrip_witness:
  "(0::int) \<le> 48 \<and> 48 \<le> maxInt \<and> nl \<notin> set ''Hello'' \<and> nl \<notin> set ''World'' \<and>
   (\<forall>ds rest. \<not> marker ''World'' ds rest) \<and>
   breakLines (size_helper 48 @ ''Hello'' @ nl # ''World'') 12 = ([''Hello'', ''World''], [48, 12]) \<and>
   (0::nat) < length (bytes_Split (NUL # ''7'' @ NUL # ''a'' @ nl # ''b'') nl) \<and>
   marker (bytes_Split (NUL # ''7'' @ NUL # ''a'' @ nl # ''b'') nl ! 0) ''7'' ''a'' \<and>
   fst (breakLines (NUL # ''7'' @ NUL # ''a'' @ nl # ''b'') 12) ! 0 = ''a'' \<and>
   snd (breakLines (NUL # ''7'' @ NUL # ''a'' @ nl # ''b'') 12) ! 0 = 7 \<and>
   1 < length (bytes_Split (NUL # ''7'' @ NUL # ''a'' @ nl # ''b'') nl) \<and>
   (\<forall>ds rest. \<not> marker (bytes_Split (NUL # ''7'' @ NUL # ''a'' @ nl # ''b'') nl ! 1) ds rest) \<and>
   fst (breakLines (NUL # ''7'' @ NUL # ''a'' @ nl # ''b'') 12) ! 1 = ''b'' \<and>
   snd (breakLines (NUL # ''7'' @ NUL # ''a'' @ nl # ''b'') 12) ! 1 = 12"
proof -
  let ?buf = "NUL # ''7'' @ NUL # ''a'' @ nl # ''b''"
  have pre: "(0::int) \<le> 48" "48 \<le> maxInt" "nl \<notin> set ''Hello''" "nl \<notin> set ''World''"
    "\<forall>ds rest. \<not> marker ''World'' ds rest"
    by (simp_all add: maxInt_def nl_def marker_def NUL_def)
  have split: "bytes_Split ?buf nl = [NUL # ''7'' @ NUL # ''a'', ''b'']"
    by (simp add: bytes_Split.simps nl_def NUL_def)
  have m0: "marker (bytes_Split ?buf nl ! 0) ''7'' ''a''"
    unfolding split by (simp add: marker_def isDigit_def)
  have m1: "\<forall>ds rest. \<not> marker (bytes_Split ?buf nl ! 1) ds rest"
    unfolding split by (simp add: marker_def NUL_def)
  have d: "decimal ''7'' = 7" "(7::int) \<le> maxInt"
    by (simp_all add: decimal_def digitVal_def maxInt_def)
  note inst = breakLines_roundtrip [of 48 "''Hello''" "''World''" 12 ?buf]
  from inst pre have one: "breakLines (size_helper 48 @ ''Hello'' @ nl # ''World'') 12 = ([''Hello'', ''World''], [48, 12])"
    by blast
  from inst have all: "\<forall>i<length (bytes_Split ?buf nl).
      (\<forall>ds rest. marker (bytes_Split ?buf nl ! i) ds rest \<longrightarrow>
         fst (breakLines ?buf 12) ! i = rest \<and>
         snd (breakLines ?buf 12) ! i = (if decimal ds \<le> maxInt then decimal ds else 12)) \<and>
      ((\<forall>ds rest. \<not> marker (bytes_Split ?buf nl ! i) ds rest) \<longrightarrow>
         fst (breakLines ?buf 12) ! i = bytes_Split ?buf nl ! i \<and> snd (breakLines ?buf 12) ! i = 12)"
    by blast
  have l0: "0 < length (bytes_Split ?buf nl)" and l1: "1 < length (bytes_Split ?buf nl)"
    unfolding split by simp_all
  from all l0 m0 have r0: "fst (breakLines ?buf 12) ! 0 = ''a''"
    "snd (breakLines ?buf 12) ! 0 = (if decimal ''7'' \<le> maxInt then decimal ''7'' else 12)"
    by blast+
  from all l1 m1 have r1: "fst (breakLines ?buf 12) ! 1 = bytes_Split ?buf nl ! 1"
    "snd (breakLines ?buf 12) ! 1 = 12"
    by blast+
  from r1(1) have r1': "fst (breakLines ?buf 12) ! 1 = ''b''" unfolding split by simp
  from r0(2) d have r0': "snd (breakLines ?buf 12) ! 0 = 7" by simp
  show ?thesis
    using pre one l0 m0 r0(1) r0' l1 m1 r1' r1(2) by (intro conjI)
qed

text \<open>
  A size that \<^verbatim>\<open>%d\<close> prints with a sign does not come back: the line keeps the
  three bytes of the marker and its digits, and has the base size.
\<close>

theorem breakLines_roundtrip_counterexample:
  "breakLines (size_helper (- 1) @ ''Hello'' @ nl # ''World'') 12 \<noteq> ([''Hello'', ''World''], [- 1, 12])"
  by (simp add: breakLines_def bytes_Split.simps size_helper_def itoa_def digits.simps NUL_def nl_def
      sizeRE_FindSubmatch_def isDigit_def)

text \<open>
  Claim C10.  \<^verbatim>\<open>breakLines\<close> returns at least one line and one size for every
  buffer and base size; for the empty buffer it returns the empty line alone, with
  the base size.
\<close>

theorem breakLines_nonempty:
  "fst (breakLines buf B) \<noteq> [] \<and> snd (breakLines buf B) \<noteq> [] \<and> breakLines [] B = ([[]], [B])"
  using bytes_Split_nonempty [of buf nl]
  by (simp add: breakLines_map bytes_Split_no_sep sizeRE_FindSubmatch_def)

section \<open>Properties of loading\<close>

lemma extract_metadata_keeps:
  "Buf (extract_metadata C ff font) = Buf font"
  "Path (extract_metadata C ff font) = Path font"
  "Family (extract_metadata C ff font) = Family font"
  "once (extract_metadata C ff font) = once font"
  by (simp_all add: extract_metadata_def Let_def split: list.splits)

lemma Load_eq:
  "Load C font style =
     (case Buf font of
        Some buf \<Rightarrow>
          (case LoadFont C (Family font) buf style of
             Inl err \<Rightarrow> (Inl (LoadError err), font, [LoadFont_call buf style])
           | Inr ff \<Rightarrow> (Inr ff, fst (font_once_Do C ff font),
                        LoadFont_call buf style # snd (font_once_Do C ff font)))
      | None \<Rightarrow>
          if Path font \<noteq> [] then
            (case LoadFontFile C (Family font) (Path font) style of
               Inl err \<Rightarrow> (Inl (LoadError err), font, [LoadFontFile_call (Path font) style])
             | Inr ff \<Rightarrow> (Inr ff, fst (font_once_Do C ff font),
                          LoadFontFile_call (Path font) style # snd (font_once_Do C ff font)))
          else (Inl NotSet, font, []))"
  by (simp add: Load_def split_beta split: option.splits sum.splits)

lemma Load_calls_Cons:
  "Load_calls font ((C, style) # others) =
     (fst (Load C font style) # fst (Load_calls (fst (snd (Load C font style))) others),
      fst (snd (Load_calls (fst (snd (Load C font style))) others)),
      snd (snd (Load C font style)) @ snd (snd (Load_calls (fst (snd (Load C font style))) others)))"
  by (simp split: prod.splits)

lemma Load_error_unchanged:
  "fst (Load C font style) = Inl e \<Longrightarrow>
   fst (snd (Load C font style)) = font \<and> NameTable_call \<notin> set (snd (snd (Load C font style)))"
  by (auto simp: Load_eq split: option.splits sum.splits if_splits)

lemma Load_done_unchanged:
  "once font \<Longrightarrow>
   fst (snd (Load C font style)) = font \<and> NameTable_call \<notin> set (snd (snd (Load C font style)))"
  by (auto simp: Load_eq font_once_Do_def split: option.splits sum.splits)

lemma Load_success_done:
  "fst (Load C font style) = Inr ff \<Longrightarrow> once (fst (snd (Load C font style)))"
  by (auto simp: Load_eq font_once_Do_def split: option.splits sum.splits if_splits)

lemma Load_first_success:
  "\<not> once font \<Longrightarrow> fst (Load C font style) = Inr ff \<Longrightarrow>
   fst (snd (Load C font style)) = (extract_metadata C ff font)\<lparr>once := True\<rparr> \<and>
   count_list (snd (snd (Load C font style))) NameTable_call = 1"
  by (auto simp: Load_eq font_once_Do_def split: option.splits sum.splits if_splits)

lemma Load_count_le: "count_list (snd (snd (Load C font style))) NameTable_call \<le> 1"
  by (auto simp: Load_eq font_once_Do_def split: option.splits sum.splits)

lemma Load_event_done:
  "NameTable_call \<in> set (snd (snd (Load C font style))) \<Longrightarrow> once (fst (snd (Load C font style)))"
  by (auto simp: Load_eq font_once_Do_def split: option.splits sum.splits if_splits)

lemma Load_calls_done:
  "once font \<Longrightarrow> count_list (snd (snd (Load_calls font calls))) NameTable_call = 0"
proof (induction calls arbitrary: font)
  case Nil
  then show ?case by simp
next
  case (Cons call calls)
  obtain C style where call: "call = (C, style)" by (cases call)
  from Cons.prems have same: "fst (snd (Load C font style)) = font"
    and none: "NameTable_call \<notin> set (snd (snd (Load C font style)))"
    using Load_done_unchanged by blast+
  from none have "count_list (snd (snd (Load C font style))) NameTable_call = 0"
    by (simp add: count_list_0_iff)
  moreover have "count_list (snd (snd (Load_calls (fst (snd (Load C font style))) calls))) NameTable_call = 0"
    using Cons.IH Cons.prems same by simp
  ultimately show ?case
    unfolding call Load_calls_Cons by simp
qed

lemma Load_calls_count: "count_list (snd (snd (Load_calls font calls))) NameTable_call \<le> 1"
proof (induction calls arbitrary: font)
  case Nil
  then show ?case by simp
next
  case (Cons call calls)
  obtain C style where call: "call = (C, style)" by (cases call)
  let ?f = "fst (snd (Load C font style))"
  let ?e = "snd (snd (Load C font style))"
  have total: "count_list (snd (snd (Load_calls font (call # calls)))) NameTable_call =
        count_list ?e NameTable_call + count_list (snd (snd (Load_calls ?f calls))) NameTable_call"
    unfolding call Load_calls_Cons by simp
  show ?case
  proof (cases "NameTable_call \<in> set ?e")
    case True
    then have "once ?f" by (rule Load_event_done)
    then have "count_list (snd (snd (Load_calls ?f calls))) NameTable_call = 0"
      by (rule Load_calls_done)
    with total Load_count_le [of C font style] show ?thesis by simp
  next
    case False
    then have "count_list ?e NameTable_call = 0" by (simp add: count_list_0_iff)
    with total Cons.IH [of ?f] show ?thesis by simp
  qed
qed

lemma Load_twice_same:
  "fst (snd (Load C (fst (snd (Load C font style))) style)) = fst (snd (Load C font style))"
proof (cases "fst (Load C font style)")
  case (Inl e)
  then have "fst (snd (Load C font style)) = font" using Load_error_unchanged by blast
  then show ?thesis by simp
next
  case (Inr ff)
  then have "once (fst (snd (Load C font style)))" by (rule Load_success_done)
  then show ?thesis using Load_done_unchanged by blast
qed


lemma example_canvas_simps:
  "LoadFont example_canvas family buf style =
     (if buf = [] then Inl ''unexpected EOF''
      else Inr [ascii ''Alpha Sans'', ascii ''Bold'', ascii ''Sphinx''])"
  "LoadFontFile example_canvas family path style =
     (if path = ascii ''fonts/alpha.otf'' then Inr [ascii ''Alpha'', ascii ''Italic'']
      else Inl ''no such file or directory'')"
  "NameTable example_canvas ff NameFontFamily = take 1 ff"
  "NameTable example_canvas ff NameFontSubfamily = take 1 (drop 1 ff)"
  "NameTable example_canvas ff NameSampleText = take 1 (drop 2 ff)"
  "ParseStyle_String example_canvas s = s"
  by (simp_all add: example_canvas_def)

text \<open>
  Claim C6.  The function that reads the name table runs at most once for a
  record, in whatever sequence of calls of \<^verbatim>\<open>Load\<close> and whatever the libraries answer:
  it runs in the first call that loads the font (there it fills the fields and sets
  the flag), never in a call that fails, which leaves the record as it was, and
  never after a call that succeeded: any later call, with any style, leaves the
  record, so its \<^verbatim>\<open>Name\<close>, \<^verbatim>\<open>Style\<close> and \<^verbatim>\<open>SampleText\<close>, as the first call left them.
  Calling \<^verbatim>\<open>Load\<close> twice with the same style leaves the record after the second call
  as after the first, whether the first call succeeded or not.
\<close>

theorem Load_extraction_once:
  "count_list (snd (snd (Load_calls font calls))) NameTable_call \<le> 1 \<and>
   (\<not> once font \<and> fst (Load C font style) = Inr ff \<longrightarrow>
      fst (snd (Load C font style)) = (extract_metadata C ff font)\<lparr>once := True\<rparr> \<and>
      count_list (snd (snd (Load C font style))) NameTable_call = 1) \<and>
   (fst (Load C font style) = Inl e \<longrightarrow>
      fst (snd (Load C font style)) = font \<and>
      NameTable_call \<notin> set (snd (snd (Load C font style)))) \<and>
   (fst (Load C font style) = Inr ff \<longrightarrow>
      fst (snd (Load C' (fst (snd (Load C font style))) style')) = fst (snd (Load C font style)) \<and>
      NameTable_call \<notin> set (snd (snd (Load C' (fst (snd (Load C font style))) style')))) \<and>
   fst (snd (Load C (fst (snd (Load C font style))) style)) = fst (snd (Load C font style))"
proof (intro conjI impI)
  show "count_list (snd (snd (Load_calls font calls))) NameTable_call \<le> 1"
    by (rule Load_calls_count)
  show "fst (snd (Load C (fst (snd (Load C font style))) style)) = fst (snd (Load C font style))"
    by (rule Load_twice_same)
next
  assume "\<not> once font \<and> fst (Load C font style) = Inr ff"
  then show "fst (snd (Load C font style)) = (extract_metadata C ff font)\<lparr>once := True\<rparr>"
    "count_list (snd (snd (Load C font style))) NameTable_call = 1"
    using Load_first_success [of font C style ff] by simp_all
next
  assume "fst (Load C font style) = Inl e"
  then show "fst (snd (Load C font style)) = font"
    "NameTable_call \<notin> set (snd (snd (Load C font style)))"
    using Load_error_unchanged [of C font style e] by simp_all
next
  assume "fst (Load C font style) = Inr ff"
  then have "once (fst (snd (Load C font style)))" by (rule Load_success_done)
  then show "fst (snd (Load C' (fst (snd (Load C font style))) style')) = fst (snd (Load C font style))"
    "NameTable_call \<notin> set (snd (snd (Load C' (fst (snd (Load C font style))) style')))"
    using Load_done_unchanged [of "fst (snd (Load C font style))" C' style'] by simp_all
qed


text \<open>
  The example font is loaded from its buffer with style 0 and then with style 1;
  with an empty buffer the call fails.
\<close>

theorem Load_extraction_once_witness:
  "\<not> once example_font \<and>
   fst (Load example_canvas example_font 0) = Inr [ascii ''Alpha Sans'', ascii ''Bold'', ascii ''Sphinx''] \<and>
   fst (snd (Load example_canvas example_font 0)) =
     example_font\<lparr>Name := ascii ''Alpha Sans'', Style := ascii ''Bold'', SampleText := ascii ''Sphinx'',
                  once := True\<rparr> \<and>
   count_list (snd (snd (Load example_canvas example_font 0))) NameTable_call = 1 \<and>
   fst (snd (Load example_canvas (fst (snd (Load example_canvas example_font 0))) 1)) =
     fst (snd (Load example_canvas example_font 0)) \<and>
   NameTable_call \<notin> set (snd (snd (Load example_canvas (fst (snd (Load example_canvas example_font 0))) 1))) \<and>
   count_list (snd (snd (Load_calls example_font [(example_canvas, 0), (example_canvas, 1)])))
     NameTable_call \<le> 1 \<and>
   fst (Load example_canvas (example_font\<lparr>Buf := Some []\<rparr>) 0) = Inl (LoadError ''unexpected EOF'') \<and>
   fst (snd (Load example_canvas (example_font\<lparr>Buf := Some []\<rparr>) 0)) = example_font\<lparr>Buf := Some []\<rparr> \<and>
   NameTable_call \<notin> set (snd (snd (Load example_canvas (example_font\<lparr>Buf := Some []\<rparr>) 0)))"
proof -
  let ?ff = "[ascii ''Alpha Sans'', ascii ''Bold'', ascii ''Sphinx'']"
  let ?bad = "example_font\<lparr>Buf := Some []\<rparr>"
  have fresh: "\<not> once example_font"
    by (simp add: example_font_def)
  have ok: "fst (Load example_canvas example_font 0) = Inr ?ff"
    by (simp add: Load_eq example_font_def example_canvas_simps)
  have bad: "fst (Load example_canvas ?bad 0) = Inl (LoadError ''unexpected EOF'')"
    by (simp add: Load_eq example_font_def example_canvas_simps)
  have names: "(extract_metadata example_canvas ?ff example_font)\<lparr>once := True\<rparr> =
      example_font\<lparr>Name := ascii ''Alpha Sans'', Style := ascii ''Bold'', SampleText := ascii ''Sphinx'',
                   once := True\<rparr>"
    by (simp add: extract_metadata_def example_canvas_simps)
  note first = Load_extraction_once [of example_font "[(example_canvas, 0), (example_canvas, 1)]"
      example_canvas 0 ?ff NotSet example_canvas 1]
  note second = Load_extraction_once [of ?bad "[]" example_canvas 0 ?ff "LoadError ''unexpected EOF''"
      example_canvas 1]
  note e = first [THEN conjunct1]
  note run = first [THEN conjunct2, THEN conjunct1, THEN mp, OF conjI [OF fresh ok]]
  note a = trans [OF run [THEN conjunct1] names]
  note b = run [THEN conjunct2]
  note later = first [THEN conjunct2, THEN conjunct2, THEN conjunct2, THEN conjunct1, THEN mp, OF ok]
  note c = later [THEN conjunct1]
  note d = later [THEN conjunct2]
  note failed = second [THEN conjunct2, THEN conjunct2, THEN conjunct1, THEN mp, OF bad]
  note f = failed [THEN conjunct1]
  note g = failed [THEN conjunct2]
  show ?thesis
    using fresh ok a b c d e bad f g by (intro conjI)
qed

text \<open>
  Claim C7.  A record with a \<^verbatim>\<open>nil\<close> buffer and an empty path makes \<^verbatim>\<open>Load\<close> fail
  with the error ``font.Buf and font.Path not set'', with no call of a library and
  the record as it was.  With a buffer, \<^verbatim>\<open>Load\<close> returns what \<^verbatim>\<open>LoadFont\<close> on that
  buffer returns and never calls \<^verbatim>\<open>LoadFontFile\<close>; with no buffer and a path, it
  returns what \<^verbatim>\<open>LoadFontFile\<close> on that path returns and never calls \<^verbatim>\<open>LoadFont\<close>.
\<close>

theorem Load_sources:
  "(Buf font = None \<and> Path font = [] \<longrightarrow> Load C font style = (Inl NotSet, font, [])) \<and>
   (Buf font = Some buf \<longrightarrow>
      fst (Load C font style) = map_sum LoadError id (LoadFont C (Family font) buf style) \<and>
      hd (snd (snd (Load C font style))) = LoadFont_call buf style \<and>
      (\<forall>p s. LoadFontFile_call p s \<notin> set (snd (snd (Load C font style))))) \<and>
   (Buf font = None \<and> Path font \<noteq> [] \<longrightarrow>
      fst (Load C font style) = map_sum LoadError id (LoadFontFile C (Family font) (Path font) style) \<and>
      hd (snd (snd (Load C font style))) = LoadFontFile_call (Path font) style \<and>
      (\<forall>b s. LoadFont_call b s \<notin> set (snd (snd (Load C font style)))))"
  by (auto simp: Load_eq font_once_Do_def split: sum.splits)

text \<open>The example font without buffer and path, as it is, and without buffer.\<close>

theorem Load_sources_witness:
  "Buf (example_font\<lparr>Buf := None, Path := []\<rparr>) = None \<and>
   Path (example_font\<lparr>Buf := None, Path := []\<rparr>) = [] \<and>
   Load example_canvas (example_font\<lparr>Buf := None, Path := []\<rparr>) 0 =
     (Inl NotSet, example_font\<lparr>Buf := None, Path := []\<rparr>, []) \<and>
   Buf example_font = Some ''OTTO'' \<and>
   fst (Load example_canvas example_font 0) = Inr [ascii ''Alpha Sans'', ascii ''Bold'', ascii ''Sphinx''] \<and>
   hd (snd (snd (Load example_canvas example_font 0))) = LoadFont_call ''OTTO'' 0 \<and>
   Buf (example_font\<lparr>Buf := None\<rparr>) = None \<and>
   Path (example_font\<lparr>Buf := None\<rparr>) \<noteq> [] \<and>
   fst (Load example_canvas (example_font\<lparr>Buf := None\<rparr>) 0) = Inr [ascii ''Alpha'', ascii ''Italic''] \<and>
   hd (snd (snd (Load example_canvas (example_font\<lparr>Buf := None\<rparr>) 0))) =
     LoadFontFile_call (ascii ''fonts/alpha.otf'') 0"
proof -
  have h1: "Buf (example_font\<lparr>Buf := None, Path := []\<rparr>) = None"
    "Path (example_font\<lparr>Buf := None, Path := []\<rparr>) = []"
    and h2: "Buf example_font = Some ''OTTO''"
    and h3: "Buf (example_font\<lparr>Buf := None\<rparr>) = None" "Path (example_font\<lparr>Buf := None\<rparr>) \<noteq> []"
    by (simp_all add: example_font_def ascii_def)
  have v2: "map_sum LoadError id (LoadFont example_canvas (Family example_font) ''OTTO'' 0) =
      Inr [ascii ''Alpha Sans'', ascii ''Bold'', ascii ''Sphinx'']"
    by (simp add: example_canvas_simps)
  have v3: "map_sum LoadError id
      (LoadFontFile example_canvas (Family (example_font\<lparr>Buf := None\<rparr>))
         (Path (example_font\<lparr>Buf := None\<rparr>)) 0) = Inr [ascii ''Alpha'', ascii ''Italic'']"
    "Path (example_font\<lparr>Buf := None\<rparr>) = ascii ''fonts/alpha.otf''"
    by (simp_all add: example_canvas_simps example_font_def)
  from Load_sources [of "example_font\<lparr>Buf := None, Path := []\<rparr>" example_canvas 0 "''OTTO''"] h1
  have a: "Load example_canvas (example_font\<lparr>Buf := None, Path := []\<rparr>) 0 =
     (Inl NotSet, example_font\<lparr>Buf := None, Path := []\<rparr>, [])"
    by blast
  from Load_sources [of example_font example_canvas 0 "''OTTO''"] h2
  have b: "fst (Load example_canvas example_font 0) =
      map_sum LoadError id (LoadFont example_canvas (Family example_font) ''OTTO'' 0)"
    "hd (snd (snd (Load example_canvas example_font 0))) = LoadFont_call ''OTTO'' 0"
    by blast+
  from Load_sources [of "example_font\<lparr>Buf := None\<rparr>" example_canvas 0 "''OTTO''"] h3
  have c: "fst (Load example_canvas (example_font\<lparr>Buf := None\<rparr>) 0) =
      map_sum LoadError id
        (LoadFontFile example_canvas (Family (example_font\<lparr>Buf := None\<rparr>))
           (Path (example_font\<lparr>Buf := None\<rparr>)) 0)"
    "hd (snd (snd (Load example_canvas (example_font\<lparr>Buf := None\<rparr>) 0))) =
      LoadFontFile_call (Path (example_font\<lparr>Buf := None\<rparr>)) 0"
    by blast+
  show ?thesis
    using h1 a h2 b(1) [unfolded v2] b(2) h3 c(1) [unfolded v3(1)] c(2) [unfolded v3(2)]
    by (intro conjI)
qed

section \<open>Properties of opening\<close>


lemma located_nonempty: "located name v \<noteq> Inr []"
  by (simp add: located_def)

lemma located_not_build: "located name v \<noteq> Inl (BuildError e)"
  by (simp add: located_def)

lemma Open_switch_nonempty: "fst (Open_switch E name style sf) \<noteq> Inr []"
  by (simp add: Open_switch_def located_nonempty split: sum.splits bool.splits)

lemma Open_switch_not_build: "fst (Open_switch E name style sf) \<noteq> Inl (BuildError e)"
  by (simp add: Open_switch_def located_not_build split: sum.splits bool.splits)

lemma Open_switch_events:
  "snd (Open_switch E name style sf) =
     (case Stat E name of Inr True \<Rightarrow> [Stat_call name, ReadDir_call name] | _ \<Rightarrow> [Stat_call name])"
  by (simp add: Open_switch_def split: sum.splits bool.splits)

lemma Open_eq:
  "Open E g name style sysfonts =
     (case sysfonts of
        None \<Rightarrow>
          (if once_done g then
             (fst (Open_switch E name style (sfonts g)), g, snd (Open_switch E name style (sfonts g)))
           else
             (case snd (FindSystemFonts E) of
                Some err \<Rightarrow>
                  (Inl (BuildError err),
                   \<lparr> once_done = True, sfonts = fst (FindSystemFonts E) \<rparr>,
                   [FindSystemFonts_call])
              | None \<Rightarrow>
                  (fst (Open_switch E name style (fst (FindSystemFonts E))),
                   \<lparr> once_done = True, sfonts = fst (FindSystemFonts E) \<rparr>,
                   FindSystemFonts_call # snd (Open_switch E name style (fst (FindSystemFonts E))))))
      | Some sf \<Rightarrow>
          (fst (Open_switch E name style (Some sf)), g, snd (Open_switch E name style (Some sf))))"
  by (simp add: Open_def once_Do_def split_beta split: option.splits)

lemma Open_nonempty: "fst (Open E g name style sysfonts) \<noteq> Inr []"
  by (simp add: Open_eq Open_switch_nonempty split: option.splits)

lemma Open_done:
  "once_done g \<Longrightarrow>
   fst (snd (Open E g name style None)) = g \<and>
   FindSystemFonts_call \<notin> set (snd (snd (Open E g name style None))) \<and>
   (\<forall>e. fst (Open E g name style None) \<noteq> Inl (BuildError e))"
  by (simp add: Open_eq Open_switch_events Open_switch_not_build split: sum.splits bool.splits)

lemma Open_sets_done: "once_done (fst (snd (Open E g name style None)))"
  by (simp add: Open_eq split: option.splits)

lemma Open_count_le: "count_list (snd (snd (Open E g name style None))) FindSystemFonts_call \<le> 1"
  by (simp add: Open_eq Open_switch_events split: option.splits sum.splits bool.splits)

lemma Open_calls_Cons:
  "Open_calls g ((E, name, style) # others) =
     (fst (Open E g name style None) # fst (Open_calls (fst (snd (Open E g name style None))) others),
      fst (snd (Open_calls (fst (snd (Open E g name style None))) others)),
      snd (snd (Open E g name style None)) @
      snd (snd (Open_calls (fst (snd (Open E g name style None))) others)))"
  by (simp split: prod.splits)

lemma Open_calls_done:
  "once_done g \<Longrightarrow>
   count_list (snd (snd (Open_calls g calls))) FindSystemFonts_call = 0 \<and>
   (\<forall>r\<in>set (fst (Open_calls g calls)). \<forall>e. r \<noteq> Inl (BuildError e))"
proof (induction calls arbitrary: g)
  case Nil
  then show ?case by simp
next
  case (Cons call calls)
  obtain E name style where call: "call = (E, name, style)" by (cases call)
  note d = Open_done [OF Cons.prems, of E name style]
  from d have c0: "count_list (snd (snd (Open E g name style None))) FindSystemFonts_call = 0"
    by (simp add: count_list_0_iff)
  from d Cons.prems have "once_done (fst (snd (Open E g name style None)))" by simp
  note ih = Cons.IH [OF this]
  show ?case
    unfolding call Open_calls_Cons using c0 ih d by simp
qed

lemma Open_calls_count:
  "count_list (snd (snd (Open_calls g calls))) FindSystemFonts_call \<le> 1"
proof (cases calls)
  case Nil
  then show ?thesis by simp
next
  case (Cons call others)
  obtain E name style where call: "call = (E, name, style)" by (cases call)
  have "count_list (snd (snd (Open_calls (fst (snd (Open E g name style None))) others)))
          FindSystemFonts_call = 0"
    using Open_calls_done [OF Open_sets_done] by blast
  then show ?thesis
    unfolding Cons call Open_calls_Cons using Open_count_le [of E g name style] by simp
qed

lemma Open_calls_build_error:
  assumes "\<not> once_done g" "snd (FindSystemFonts E) = Some err"
  shows "hd (fst (Open_calls g ((E, name, style) # calls))) = Inl (BuildError err) \<and>
         (\<forall>r\<in>set (tl (fst (Open_calls g ((E, name, style) # calls)))).
             \<forall>e. r \<noteq> Inl (BuildError e))"
proof -
  have first: "fst (Open E g name style None) = Inl (BuildError err)"
    using assms by (simp add: Open_eq)
  have "\<forall>r\<in>set (fst (Open_calls (fst (snd (Open E g name style None))) calls)).
          \<forall>e. r \<noteq> Inl (BuildError e)"
    using Open_calls_done [OF Open_sets_done] by blast
  with first show ?thesis
    unfolding Open_calls_Cons by simp
qed










lemma example_env_simps:
  "tables example_env = greek_tables"
  "FindSystemFonts example_env = (Some example_index, None)"
  "Stat example_env (ascii ''fonts'') = Inr True"
  "Stat example_env (ascii ''notes.txt'') = Inr False"
  "Stat example_env (ascii ''Nope'') = Inl ''no such file or directory''"
  "ReadDir example_env (ascii ''fonts'') = Inr example_entries"
  "Join example_env dir elem = dir @ slash # elem"
  "sort_Slice example_env = sort_by"
  "SystemFonts_Match example_env (Some example_index) (ascii ''Nope'') style = None"
  "SystemFonts_Match example_env None name style = None"
  by (simp_all add: example_env_def example_index_def ascii_def)

lemma failing_env_simps:
  "tables failing_env = greek_tables"
  "FindSystemFonts failing_env = (None, Some ''permission denied'')"
  "Stat failing_env = Stat example_env"
  "SystemFonts_Match failing_env = SystemFonts_Match example_env"
  by (simp_all add: failing_env_def example_env_def)










text \<open>
  Claim C5.  In a sequence of calls of \<^verbatim>\<open>Open\<close> without an index, from any state
  of the package variables, \<^verbatim>\<open>FindSystemFonts\<close> is called at most once.  When it is
  called and fails, the call of \<^verbatim>\<open>Open\<close> that made it returns its error, and no
  later call returns an error of building the index.
\<close>

theorem Open_builds_once:
  "count_list (snd (snd (Open_calls g calls))) FindSystemFonts_call \<le> 1 \<and>
   (\<not> once_done g \<and> snd (FindSystemFonts E) = Some err \<longrightarrow>
      hd (fst (Open_calls g ((E, name, style) # calls))) = Inl (BuildError err) \<and>
      (\<forall>r\<in>set (tl (fst (Open_calls g ((E, name, style) # calls)))). \<forall>e. r \<noteq> Inl (BuildError e)))"
  using Open_calls_count [of g calls] Open_calls_build_error [of g E err name style calls]
  by blast


text \<open>
  Three calls when the index cannot be built: the first returns the error, the
  second opens a file, the third finds nothing.
\<close>

theorem Open_builds_once_witness:
  "\<not> once_done (init_globals :: FontMetadata list globals) \<and>
   snd (FindSystemFonts failing_env) = Some ''permission denied'' \<and>
   hd (fst (Open_calls init_globals
             [(failing_env, ascii ''Nope'', 0), (failing_env, ascii ''notes.txt'', 0),
              (failing_env, ascii ''Nope'', 0)])) = Inl (BuildError ''permission denied'') \<and>
   tl (fst (Open_calls init_globals
             [(failing_env, ascii ''Nope'', 0), (failing_env, ascii ''notes.txt'', 0),
              (failing_env, ascii ''Nope'', 0)])) =
     [Inr [New greek_tables None (ascii ''notes.txt'')], Inl (NotFound (ascii ''Nope''))] \<and>
   count_list (snd (snd (Open_calls init_globals
             [(failing_env, ascii ''Nope'', 0), (failing_env, ascii ''notes.txt'', 0),
              (failing_env, ascii ''Nope'', 0)]))) FindSystemFonts_call \<le> 1"
proof -
  let ?calls = "[(failing_env, ascii ''notes.txt'', 0), (failing_env, ascii ''Nope'', 0)]"
  have fresh: "\<not> once_done (init_globals :: FontMetadata list globals)"
    by (simp add: init_globals_def)
  have fails: "snd (FindSystemFonts failing_env) = Some ''permission denied''"
    by (simp add: failing_env_simps)
  note first = Open_builds_once [of init_globals ?calls failing_env "''permission denied''"
      "ascii ''Nope''" 0, THEN conjunct2, THEN mp, OF conjI [OF fresh fails], THEN conjunct1]
  note count = Open_builds_once [of init_globals "(failing_env, ascii ''Nope'', 0) # ?calls" failing_env
      "''permission denied''" "ascii ''Nope''" 0, THEN conjunct1]
  have rest: "tl (fst (Open_calls init_globals ((failing_env, ascii ''Nope'', 0) # ?calls))) =
      [Inr [New greek_tables None (ascii ''notes.txt'')], Inl (NotFound (ascii ''Nope''))]"
    by (simp add: Open_calls_Cons Open_eq init_globals_def Open_switch_def Match_def located_def
        failing_env_simps example_env_simps)
  show ?thesis
    using fresh fails first rest count by (intro conjI)
qed

text \<open>
  Claim C8.  \<^verbatim>\<open>Open\<close> never returns an empty slice of fonts: its result is an error
  or a slice that is not empty.  When \<^verbatim>\<open>os.Stat\<close> fails for the name (it is neither
  a file nor a directory), an index is at hand and the index in use has no match,
  \<^verbatim>\<open>Open\<close> fails with the error of a font that is not found, which carries the name.
\<close>

theorem Open_never_empty:
  "fst (Open E g name style sysfonts) \<noteq> Inr [] \<and>
   (Stat E name = Inl err \<and>
    (sysfonts \<noteq> None \<or> once_done g \<or> snd (FindSystemFonts E) = None) \<and>
    SystemFonts_Match E
      (case sysfonts of Some sf \<Rightarrow> Some sf
       | None \<Rightarrow> if once_done g then sfonts g else fst (FindSystemFonts E))
      name (ParseStyle E (FontStyle_String E style)) = None \<longrightarrow>
    fst (Open E g name style sysfonts) = Inl (NotFound name))"
proof (intro conjI impI)
  show "fst (Open E g name style sysfonts) \<noteq> Inr []" by (rule Open_nonempty)
next
  assume "Stat E name = Inl err \<and>
    (sysfonts \<noteq> None \<or> once_done g \<or> snd (FindSystemFonts E) = None) \<and>
    SystemFonts_Match E
      (case sysfonts of Some sf \<Rightarrow> Some sf
       | None \<Rightarrow> if once_done g then sfonts g else fst (FindSystemFonts E))
      name (ParseStyle E (FontStyle_String E style)) = None"
  then have st: "Stat E name = Inl err"
    and idx: "sysfonts \<noteq> None \<or> once_done g \<or> snd (FindSystemFonts E) = None"
    and no: "SystemFonts_Match E
      (case sysfonts of Some sf \<Rightarrow> Some sf
       | None \<Rightarrow> if once_done g then sfonts g else fst (FindSystemFonts E))
      name (ParseStyle E (FontStyle_String E style)) = None"
    by simp_all
  have sw: "fst (Open_switch E name style sf) = Inl (NotFound name)"
    if "SystemFonts_Match E sf name (ParseStyle E (FontStyle_String E style)) = None" for sf
    using that st by (simp add: Open_switch_def Match_def located_def)
  show "fst (Open E g name style sysfonts) = Inl (NotFound name)"
  proof (cases sysfonts)
    case (Some sf)
    with no show ?thesis by (simp add: Open_eq sw)
  next
    case None
    show ?thesis
    proof (cases "once_done g")
      case True
      with None no show ?thesis by (simp add: Open_eq sw)
    next
      case False
      with None idx have "snd (FindSystemFonts E) = None" by simp
      with None False no show ?thesis by (simp add: Open_eq sw)
    qed
  qed
qed


text \<open>The name \<^verbatim>\<open>Nope\<close> in the example system.\<close>

theorem Open_never_empty_witness:
  "Stat example_env (ascii ''Nope'') = Inl ''no such file or directory'' \<and>
   snd (FindSystemFonts example_env) = None \<and>
   SystemFonts_Match example_env (fst (FindSystemFonts example_env)) (ascii ''Nope'')
     (ParseStyle example_env (FontStyle_String example_env 0)) = None \<and>
   fst (Open example_env init_globals (ascii ''Nope'') 0 None) = Inl (NotFound (ascii ''Nope'')) \<and>
   fst (Open example_env init_globals (ascii ''Nope'') 0 None) \<noteq> Inr []"
proof -
  have st: "Stat example_env (ascii ''Nope'') = Inl ''no such file or directory''"
    and ok: "snd (FindSystemFonts example_env) = None"
    and no: "SystemFonts_Match example_env (fst (FindSystemFonts example_env)) (ascii ''Nope'')
      (ParseStyle example_env (FontStyle_String example_env 0)) = None"
    by (simp_all add: example_env_simps)
  have idx: "None \<noteq> (None :: FontMetadata list option) \<or> once_done (init_globals :: FontMetadata list globals) \<or>
      snd (FindSystemFonts example_env) = None"
    using ok by simp
  have no': "SystemFonts_Match example_env
      (case (None :: FontMetadata list option) of Some sf \<Rightarrow> Some sf
       | None \<Rightarrow> if once_done (init_globals :: FontMetadata list globals) then sfonts init_globals
                 else fst (FindSystemFonts example_env))
      (ascii ''Nope'') (ParseStyle example_env (FontStyle_String example_env 0)) = None"
    using no by (simp add: init_globals_def)
  note inst = Open_never_empty [of example_env init_globals "ascii ''Nope''" 0 None
      "''no such file or directory''"]
  note found = inst [THEN conjunct2, THEN mp, OF conjI [OF st conjI [OF idx no']]]
  show ?thesis
    using st ok no found inst [THEN conjunct1] by (intro conjI)
qed

end
